theory Spec2Isabelle
  imports Main
begin

section \<open>Go strings, runes and UTF-8\<close>

text \<open>
  A Go \<^verbatim>\<open>string\<close> is a sequence of bytes; it is modelled as a \<^typ>\<open>string\<close>
  (a list of 8-bit characters), \<^term>\<open>of_char c\<close> being the byte's value.
  A \<^verbatim>\<open>rune\<close> (Go's \<^verbatim>\<open>int32\<close> code point) is an \<^typ>\<open>int\<close>.

  The functions of this section are the ones of Go's standard library that
  \<^verbatim>\<open>getRecordName\<close>, \<^verbatim>\<open>Present\<close> and \<^verbatim>\<open>json.Unmarshal\<close> call
  (packages \<^verbatim>\<open>unicode/utf8\<close>, \<^verbatim>\<open>unicode\<close>, \<^verbatim>\<open>strings\<close>, \<^verbatim>\<open>regexp\<close>),
  written after their documented behaviour.
\<close>

type_synonym rune = int

definition RuneError :: rune where
  "RuneError = 0xFFFD"

text \<open>
  \<^verbatim>\<open>utf8.DecodeRuneInString\<close>: the first rune of the string and its width in bytes;
  \<^verbatim>\<open>(RuneError, 0)\<close> on the empty string and \<^verbatim>\<open>(RuneError, 1)\<close> on an invalid
  encoding (a stray continuation byte, a truncated or overlong sequence, a surrogate,
  a value above U+10FFFF). \<open>sz\<close>, \<open>lo\<close> and \<open>hi\<close> are what Go reads from its tables
  \<^verbatim>\<open>first\<close> and \<^verbatim>\<open>acceptRanges\<close>; the masks \<^verbatim>\<open>s0&mask2\<close>, \<^verbatim>\<open>s1&maskx\<close> and the shifts
  are written as \<open>mod\<close> and multiplication.
\<close>

fun DecodeRuneInString :: "string \<Rightarrow> rune \<times> nat" where
  "DecodeRuneInString [] = (RuneError, 0)"
| "DecodeRuneInString (c # s) =
     (let s0 = of_char c :: int in
      if s0 < 0x80 then (s0, 1)
      else if s0 < 0xC2 \<or> 0xF4 < s0 then (RuneError, 1)
      else
        let sz = (if s0 < 0xE0 then 2 else if s0 < 0xF0 then 3 else 4 :: nat);
            lo = (if s0 = 0xE0 then 0xA0 else if s0 = 0xF0 then 0x90 else 0x80 :: int);
            hi = (if s0 = 0xED then 0x9F else if s0 = 0xF4 then 0x8F else 0xBF :: int)
        in
        if length (c # s) < sz then (RuneError, 1)
        else
          let s1 = of_char (s ! 0) :: int in
          if s1 < lo \<or> hi < s1 then (RuneError, 1)
          else if sz \<le> 2 then ((s0 mod 32) * 64 + s1 mod 64, 2)
          else
            let s2 = of_char (s ! 1) :: int in
            if s2 < 0x80 \<or> 0xBF < s2 then (RuneError, 1)
            else if sz \<le> 3 then ((s0 mod 16) * 4096 + (s1 mod 64) * 64 + s2 mod 64, 3)
            else
              let s3 = of_char (s ! 2) :: int in
              if s3 < 0x80 \<or> 0xBF < s3 then (RuneError, 1)
              else ((s0 mod 8) * 262144 + (s1 mod 64) * 4096 + (s2 mod 64) * 64
                    + s3 mod 64, 4))"

text \<open>
  \<^verbatim>\<open>utf8.AppendRune\<close> / \<^verbatim>\<open>utf8.EncodeRune\<close>: the UTF-8 encoding of a rune; a rune
  that is negative, a surrogate or above U+10FFFF is written as U+FFFD.
\<close>

definition EncodeRune :: "rune \<Rightarrow> string" where
  "EncodeRune r =
     (if 0 \<le> r \<and> r \<le> 0x7F then [char_of r]
      else if 0 \<le> r \<and> r \<le> 0x7FF then
        [char_of (0xC0 + r div 64), char_of (0x80 + r mod 64)]
      else if r < 0 \<or> 0x10FFFF < r \<or> (0xD800 \<le> r \<and> r \<le> 0xDFFF) then
        [CHR 0xEF, CHR 0xBF, CHR 0xBD]
      else if r \<le> 0xFFFF then
        [char_of (0xE0 + r div 4096), char_of (0x80 + r div 64 mod 64),
         char_of (0x80 + r mod 64)]
      else
        [char_of (0xF0 + r div 262144), char_of (0x80 + r div 4096 mod 64),
         char_of (0x80 + r div 64 mod 64), char_of (0x80 + r mod 64)])"

text \<open>
  \<^verbatim>\<open>utf8.ValidRune\<close>: the runes that have an encoding of their own, which are the
  code points U+0000 to U+10FFFF without the surrogates.
\<close>

definition validRune :: "rune \<Rightarrow> bool" where
  "validRune r = (0 \<le> r \<and> r \<le> 0x10FFFF \<and> \<not> (0xD800 \<le> r \<and> r \<le> 0xDFFF))"

text \<open>
  The case tables of package \<^verbatim>\<open>unicode\<close> (\<^verbatim>\<open>unicode.CaseRanges\<close> and the fold
  orbits) belong to the Go release the program is built with, not to the repository.
  They are a parameter of the model: \<open>To_LowerCase U r\<close> is \<^verbatim>\<open>unicode.To(LowerCase, r)\<close>
  for a rune above U+007F, and \<open>foldRune U r\<close> is the smallest rune of the
  \<^verbatim>\<open>unicode.SimpleFold\<close> orbit of such a rune. The theorems below hold for every
  table; where a theorem needs that the table maps a rune to a code point (a rune that
  is not negative), as Go's tables do, it says so. Inside ASCII both functions are
  fixed by the library's code and are written out.
\<close>

record unicode =
  To_LowerCase :: "rune \<Rightarrow> rune"
  foldRune :: "rune \<Rightarrow> rune"

text \<open>A table without case pairs above ASCII, for evaluating the model on ASCII inputs.\<close>

definition ascii_tables :: unicode where
  "ascii_tables = \<lparr>To_LowerCase = (\<lambda>r. r), foldRune = (\<lambda>r. r)\<rparr>"

text \<open>
  A table with some case pairs above ASCII, for evaluating the model on other inputs.
  The capital letters U+00C0 to U+00DE of Latin-1 (U+00D7 is the multiplication sign)
  have their small letters 32 places further, and a small letter folds to its capital
  letter. The Kelvin sign U+212A has the small letter \<^verbatim>\<open>k\<close> and folds to the capital
  letter \<^verbatim>\<open>K\<close>.
\<close>

definition sample_tables :: unicode where
  "sample_tables =
     \<lparr>To_LowerCase = (\<lambda>r. if 0xC0 \<le> r \<and> r \<le> 0xDE \<and> r \<noteq> 0xD7 then r + 0x20
                           else if r = 0x212A then 0x6B else r),
      foldRune = (\<lambda>r. if 0xE0 \<le> r \<and> r \<le> 0xFE \<and> r \<noteq> 0xF7 then r - 0x20
                       else if r = 0x212A then 0x4B else r)\<rparr>"

text \<open>\<^verbatim>\<open>unicode.ToLower\<close>.\<close>

definition unicode_ToLower :: "unicode \<Rightarrow> rune \<Rightarrow> rune" where
  "unicode_ToLower U r =
     (if r \<le> 0x7F then (if 0x41 \<le> r \<and> r \<le> 0x5A then r + 0x20 else r)
      else To_LowerCase U r)"

lemma DecodeRuneInString_width:
  "s \<noteq> [] \<Longrightarrow> 1 \<le> snd (DecodeRuneInString s) \<and> snd (DecodeRuneInString s) \<le> 4"
  by (cases s) (simp_all add: Let_def)

lemma DecodeRuneInString_pos:
  "DecodeRuneInString (c # s) = (r, w) \<Longrightarrow> 0 < w"
  using DecodeRuneInString_width [of "c # s"] by simp

declare DecodeRuneInString.simps(2) [simp del]

text \<open>
  \<^verbatim>\<open>strings.Map\<close>: every rune of the string (an invalid byte counting as U+FFFD) is
  replaced by the encoding of its image; a negative image drops the rune.
\<close>

function strings_Map :: "(rune \<Rightarrow> rune) \<Rightarrow> string \<Rightarrow> string" where
  "strings_Map mapping [] = []"
| "strings_Map mapping (c # s) =
     (case DecodeRuneInString (c # s) of
        (r, w) \<Rightarrow>
          (if 0 \<le> mapping r then EncodeRune (mapping r) else [])
          @ strings_Map mapping (drop w (c # s)))"
  by pat_completeness auto
termination
  by (relation "measure (\<lambda>(mapping, s). length s)")
     (auto dest: DecodeRuneInString_pos [OF sym])

text \<open>
  \<^verbatim>\<open>strings.ToLower\<close>: a string of ASCII bytes only is lower-cased byte by byte;
  any other string goes through \<^verbatim>\<open>Map(unicode.ToLower, s)\<close>.
\<close>

definition isASCII :: "string \<Rightarrow> bool" where
  "isASCII s = list_all (\<lambda>c. (of_char c :: int) < 0x80) s"

definition lowerByte :: "char \<Rightarrow> char" where
  "lowerByte c =
     (if (0x41 :: int) \<le> of_char c \<and> (of_char c :: int) \<le> 0x5A
      then char_of ((of_char c :: int) + 0x20) else c)"

definition strings_ToLower :: "unicode \<Rightarrow> string \<Rightarrow> string" where
  "strings_ToLower U s =
     (if isASCII s then map lowerByte s else strings_Map (unicode_ToLower U) s)"

text \<open>
  \<^verbatim>\<open>strings.HasSuffix\<close>, and \<^verbatim>\<open>strings.TrimRight\<close> for a cutset of one ASCII byte,
  which Go runs as \<^verbatim>\<open>trimRightByte\<close>: the loop drops the last byte while it is \<open>c\<close>.
\<close>

definition strings_HasSuffix :: "string \<Rightarrow> string \<Rightarrow> bool" where
  "strings_HasSuffix s suffix =
     (length suffix \<le> length s \<and> drop (length s - length suffix) s = suffix)"

function trimRightByte :: "string \<Rightarrow> char \<Rightarrow> string" where
  "trimRightByte s c =
     (if 0 < length s \<and> s ! (length s - 1) = c
      then trimRightByte (take (length s - 1) s) c else s)"
  by pat_completeness auto
termination
  by (relation "measure (\<lambda>(s, c). length s)") auto

declare trimRightByte.simps [simp del]

text \<open>
  The regular expression of \<^verbatim>\<open>getRecordName\<close> is the negated class
  \<^verbatim>\<open>[^a-z0-9-]\<close>; \<open>in_class\<close> is the class itself. A match is one rune (an invalid
  byte is matched as U+FFFD, width 1), matches cannot overlap, and the replacement
  \<^verbatim>\<open>"-"\<close> holds no \<^verbatim>\<open>$\<close> to expand, so \<^verbatim>\<open>ReplaceAllString\<close> walks the string rune
  by rune, writing \<open>repl\<close> for a rune outside the class and copying the bytes of a
  rune inside it.
\<close>

definition in_class :: "rune \<Rightarrow> bool" where
  "in_class r = ((0x61 \<le> r \<and> r \<le> 0x7A) \<or> (0x30 \<le> r \<and> r \<le> 0x39) \<or> r = 0x2D)"

function ReplaceAllString :: "string \<Rightarrow> string \<Rightarrow> string" where
  "ReplaceAllString [] repl = []"
| "ReplaceAllString (c # s) repl =
     (case DecodeRuneInString (c # s) of
        (r, w) \<Rightarrow>
          (if in_class r then take w (c # s) else repl)
          @ ReplaceAllString (drop w (c # s)) repl)"
  by pat_completeness auto
termination
  by (relation "measure (\<lambda>(s, repl). length s)")
     (auto dest: DecodeRuneInString_pos [OF sym])

section \<open>The name deriver\<close>

text \<open>
  \<^verbatim>\<open>getRecordName\<close> (main.go, lines 193 to 198). \<^verbatim>\<open>regexp.MustCompile\<close> panics
  on a pattern that does not compile; the pattern is a constant that compiles, so
  the model has no panic branch.
\<close>

definition getRecordName :: "unicode \<Rightarrow> string \<Rightarrow> string" where
  "getRecordName U fqdn =
     (let fqdn1 = strings_ToLower U fqdn;
          fqdn2 = ReplaceAllString fqdn1 ''-'';
          fqdn3 = trimRightByte fqdn2 (CHR ''-'')
      in ''acme-'' @ fqdn3)"

text \<open>
  The reference definition, after the words of the specification (section 4.1):
  lower-case the input, replace every character outside \<^verbatim>\<open>[a-z0-9-]\<close> with a hyphen,
  strip the trailing hyphens, prefix with \<^verbatim>\<open>acme-\<close>. It is written over the
  characters of the input, not over its bytes, and with no call of the library's
  string functions. The characters of a string are its runes, a byte that belongs to
  no UTF-8 encoding being the character U+FFFD.
\<close>

function runes :: "string \<Rightarrow> rune list" where
  "runes [] = []"
| "runes (c # s) =
     (case DecodeRuneInString (c # s) of (r, w) \<Rightarrow> r # runes (drop w (c # s)))"
  by pat_completeness auto
termination
  by (relation "measure length") (auto dest: DecodeRuneInString_pos [OF sym])

text \<open>
  Lower-casing a character: a capital letter of the alphabet becomes the small letter
  at the same place of the alphabet, any other ASCII character stays, and a character
  above ASCII becomes what the Unicode table says.
\<close>

definition upper_case_letters :: string where
  "upper_case_letters = ''ABCDEFGHIJKLMNOPQRSTUVWXYZ''"

definition lower_case_letters :: string where
  "lower_case_letters = ''abcdefghijklmnopqrstuvwxyz''"

definition lower_case :: "unicode \<Rightarrow> rune \<Rightarrow> rune" where
  "lower_case U r =
     (case map_of (zip (map of_char upper_case_letters) (map of_char lower_case_letters)) r of
        Some l \<Rightarrow> l
      | None \<Rightarrow> if r < 0x80 then r else To_LowerCase U r)"

definition replace_outside_class :: "rune \<Rightarrow> char" where
  "replace_outside_class r = (if in_class r then char_of r else CHR ''-'')"

definition strip_trailing_hyphens :: "string \<Rightarrow> string" where
  "strip_trailing_hyphens s = rev (dropWhile (\<lambda>c. c = CHR ''-'') (rev s))"

definition deriveRecordName_spec :: "unicode \<Rightarrow> string \<Rightarrow> string" where
  "deriveRecordName_spec U d =
     ''acme-'' @
     strip_trailing_hyphens (map replace_outside_class (map (lower_case U) (runes d)))"

text \<open>
  Three inputs that are not ASCII, for evaluating the name deriver: the capital letter
  U+00C9 (two bytes) before \<^verbatim>\<open>A.COM\<close>, the Kelvin sign U+212A (three bytes) before
  \<^verbatim>\<open>.IO\<close>, and a string with two bytes that belong to no encoding.
\<close>

definition sampleLatin :: string where
  "sampleLatin = [CHR 0xC3, CHR 0x89, CHR ''A'', CHR ''.'', CHR ''C'', CHR ''O'', CHR ''M'']"

definition sampleKelvin :: string where
  "sampleKelvin = [CHR 0xE2, CHR 0x84, CHR 0xAA, CHR ''.'', CHR ''I'', CHR ''O'']"

definition sampleInvalid :: string where
  "sampleInvalid = [CHR 0xFF, CHR ''a'', CHR 0xC3]"

section \<open>Decoding the per-request configuration: \<^verbatim>\<open>encoding/json\<close>\<close>

text \<open>
  \<^verbatim>\<open>loadConfig\<close> hands the raw bytes to \<^verbatim>\<open>json.Unmarshal\<close>, which first checks
  the whole input against the JSON grammar (\<^verbatim>\<open>checkValid\<close>) and then stores the
  value into the target, here a \<^verbatim>\<open>customDNSProviderConfig\<close>. The model reads the
  input into tokens, the tokens into a value with the scanner's stack of open arrays
  and objects, and stores the value as \<^verbatim>\<open>decodeState\<close> does for a struct of two
  \<^verbatim>\<open>map[string]string\<close> fields.
\<close>

subsection \<open>Tokens\<close>

datatype token =
    LBrace | RBrace | LBracket | RBracket | Colon | Comma
  | StringLit string
  | NumberLit string
  | TrueLit | FalseLit | NullLit

definition isSpace :: "char \<Rightarrow> bool" where
  "isSpace c = (c = CHR 0x20 \<or> c = CHR 0x09 \<or> c = CHR 0x0D \<or> c = CHR 0x0A)"

definition isDigit :: "char \<Rightarrow> bool" where
  "isDigit c = ((0x30 :: int) \<le> of_char c \<and> (of_char c :: int) \<le> 0x39)"

definition hexDigit :: "char \<Rightarrow> int option" where
  "hexDigit c =
     (let b = of_char c :: int in
      if 0x30 \<le> b \<and> b \<le> 0x39 then Some (b - 0x30)
      else if 0x61 \<le> b \<and> b \<le> 0x66 then Some (b - 0x61 + 10)
      else if 0x41 \<le> b \<and> b \<le> 0x46 then Some (b - 0x41 + 10)
      else None)"

text \<open>
  \<^verbatim>\<open>getu4\<close>: the value of a leading \<^verbatim>\<open>\uXXXX\<close>, or \<open>-1\<close> when the string does not
  start with one.
\<close>

definition getu4 :: "string \<Rightarrow> int" where
  "getu4 s =
     (case s of
        b # u # h1 # h2 # h3 # h4 # _ \<Rightarrow>
          if b = CHR 0x5C \<and> u = CHR ''u'' then
            (case (hexDigit h1, hexDigit h2, hexDigit h3, hexDigit h4) of
               (Some x1, Some x2, Some x3, Some x4) \<Rightarrow> ((x1 * 16 + x2) * 16 + x3) * 16 + x4
             | _ \<Rightarrow> - 1)
          else - 1
      | _ \<Rightarrow> - 1)"

text \<open>\<^verbatim>\<open>utf16.IsSurrogate\<close> and \<^verbatim>\<open>utf16.DecodeRune\<close>.\<close>

definition IsSurrogate :: "rune \<Rightarrow> bool" where
  "IsSurrogate r = (0xD800 \<le> r \<and> r < 0xE000)"

definition utf16_DecodeRune :: "rune \<Rightarrow> rune \<Rightarrow> rune" where
  "utf16_DecodeRune r1 r2 =
     (if 0xD800 \<le> r1 \<and> r1 < 0xDC00 \<and> 0xDC00 \<le> r2 \<and> r2 < 0xE000
      then (r1 - 0xD800) * 1024 + (r2 - 0xDC00) + 0x10000
      else RuneError)"

text \<open>The one-character escapes the scanner accepts after a backslash.\<close>

definition unescape :: "char \<Rightarrow> char option" where
  "unescape e =
     (if e = CHR 0x22 \<or> e = CHR 0x5C \<or> e = CHR ''/'' then Some e
      else if e = CHR ''b'' then Some (CHR 0x08)
      else if e = CHR ''f'' then Some (CHR 0x0C)
      else if e = CHR ''n'' then Some (CHR 0x0A)
      else if e = CHR ''r'' then Some (CHR 0x0D)
      else if e = CHR ''t'' then Some (CHR 0x09)
      else None)"

definition prepend :: "string \<Rightarrow> (string \<times> string) option \<Rightarrow> (string \<times> string) option" where
  "prepend bs res = (case res of None \<Rightarrow> None | Some (str, rest) \<Rightarrow> Some (bs @ str, rest))"

text \<open>
  \<open>lexString s\<close> reads a string literal whose opening quote has been consumed: the
  unquoted contents (\<^verbatim>\<open>unquoteBytes\<close>) and the input after the closing quote, or
  \<open>None\<close> where the scanner reports a syntax error (no closing quote, a control
  character, a bad escape). Invalid UTF-8 is accepted and stored as U+FFFD; a
  \<^verbatim>\<open>\u\<close> escape that is half of a surrogate pair is stored as U+FFFD.
\<close>

function lexString :: "string \<Rightarrow> (string \<times> string) option" where
  "lexString [] = None"
| "lexString (c # s) =
     (if c = CHR 0x22 then Some ([], s)
      else if c = CHR 0x5C then
        (case s of
           [] \<Rightarrow> None
         | e # s' \<Rightarrow>
             if e = CHR ''u'' then
               (let rr = getu4 (c # s) in
                if rr < 0 then None
                else if IsSurrogate rr then
                  (let dec = utf16_DecodeRune rr (getu4 (drop 6 (c # s))) in
                   if dec \<noteq> RuneError
                   then prepend (EncodeRune dec) (lexString (drop 12 (c # s)))
                   else prepend (EncodeRune RuneError) (lexString (drop 6 (c # s))))
                else prepend (EncodeRune rr) (lexString (drop 6 (c # s))))
             else
               (case unescape e of
                  None \<Rightarrow> None
                | Some b \<Rightarrow> prepend [b] (lexString s')))
      else if (of_char c :: int) < 0x20 then None
      else if (of_char c :: int) < 0x80 then prepend [c] (lexString s)
      else
        (case DecodeRuneInString (c # s) of
           (r, w) \<Rightarrow> prepend (EncodeRune r) (lexString (drop w (c # s)))))"
  by pat_completeness auto
termination
  by (relation "measure length") (auto dest: DecodeRuneInString_pos [OF sym])

text \<open>
  A number literal, as the scanner's states \<^verbatim>\<open>stateNeg\<close>, \<^verbatim>\<open>state0\<close>, \<^verbatim>\<open>state1\<close>,
  \<^verbatim>\<open>stateDot\<close>, \<^verbatim>\<open>stateE\<close> accept it: an optional minus, \<^verbatim>\<open>0\<close> or a digit string
  without leading zero, an optional fraction and an optional exponent, each with
  at least one digit. \<open>scanNumber s\<close> is the length of the literal \<open>s\<close> starts with.
\<close>

definition scanDigits :: "string \<Rightarrow> nat" where
  "scanDigits s = length (takeWhile isDigit s)"

definition scanInteger :: "string \<Rightarrow> nat option" where
  "scanInteger s =
     (case s of
        [] \<Rightarrow> None
      | c # s1 \<Rightarrow>
          if c = CHR ''0'' then Some 1
          else if isDigit c then Some (1 + scanDigits s1)
          else None)"

definition scanFraction :: "string \<Rightarrow> nat option" where
  "scanFraction s =
     (case s of
        [] \<Rightarrow> Some 0
      | c # s1 \<Rightarrow>
          if c = CHR ''.'' then
            (if scanDigits s1 = 0 then None else Some (1 + scanDigits s1))
          else Some 0)"

definition scanExponent :: "string \<Rightarrow> nat option" where
  "scanExponent s =
     (case s of
        [] \<Rightarrow> Some 0
      | c # s1 \<Rightarrow>
          if c = CHR ''e'' \<or> c = CHR ''E'' then
            (let sign = (case s1 of
                           [] \<Rightarrow> (0 :: nat)
                         | g # _ \<Rightarrow> (if g = CHR ''+'' \<or> g = CHR ''-'' then 1 else 0));
                 n = scanDigits (drop sign s1)
             in if n = 0 then None else Some (1 + sign + n))
          else Some 0)"

definition scanNumber :: "string \<Rightarrow> nat option" where
  "scanNumber s =
     (let neg = (case s of [] \<Rightarrow> (0 :: nat) | c # _ \<Rightarrow> (if c = CHR ''-'' then 1 else 0)) in
      case scanInteger (drop neg s) of
        None \<Rightarrow> None
      | Some i \<Rightarrow>
          (case scanFraction (drop (neg + i) s) of
             None \<Rightarrow> None
           | Some f \<Rightarrow>
               (case scanExponent (drop (neg + i + f) s) of
                  None \<Rightarrow> None
                | Some e \<Rightarrow> Some (neg + i + f + e))))"

lemma scanNumber_pos: "scanNumber s = Some n \<Longrightarrow> 0 < n"
  by (auto simp: scanNumber_def scanInteger_def Let_def
      split: option.splits list.splits if_splits)

lemma prepend_rest:
  "prepend bs res = Some (str, rest) \<Longrightarrow> \<exists>str'. res = Some (str', rest)"
  by (auto simp: prepend_def split: option.splits)

lemma lexString_rest: "lexString s = Some (str, rest) \<Longrightarrow> length rest < length s"
proof (induction s arbitrary: str rule: lexString.induct)
  case 1
  then show ?case by simp
next
  case (2 c s)
  show ?case
  proof (cases "c = CHR 0x22")
    case True
    then show ?thesis using "2.prems" by simp
  next
    case nq: False
    show ?thesis
    proof (cases "c = CHR 0x5C")
      case bs: True
      show ?thesis
      proof (cases s)
        case Nil
        then show ?thesis using "2.prems" nq bs by simp
      next
        case (Cons e s')
        show ?thesis
        proof (cases "e = CHR ''u''")
          case u: True
          let ?rr = "getu4 (c # s)"
          let ?dec = "utf16_DecodeRune ?rr (getu4 (drop 6 (c # s)))"
          from "2.prems" nq bs Cons u have nneg: "\<not> ?rr < 0"
            by (auto simp: Let_def split: if_splits)
          show ?thesis
          proof (cases "IsSurrogate ?rr")
            case sur: True
            show ?thesis
            proof (cases "?dec \<noteq> RuneError")
              case True
              with "2.prems" nq bs Cons u nneg sur
              obtain str' where "lexString (drop 12 (c # s)) = Some (str', rest)"
                by (auto simp: Let_def dest!: prepend_rest)
              from "2.IH"(1) [OF nq bs Cons u refl nneg sur refl True this]
              show ?thesis by simp
            next
              case False
              with "2.prems" nq bs Cons u nneg sur
              obtain str' where "lexString (drop 6 (c # s)) = Some (str', rest)"
                by (auto simp: Let_def dest!: prepend_rest)
              from "2.IH"(2) [OF nq bs Cons u refl nneg sur refl False this]
              show ?thesis by simp
            qed
          next
            case False
            with "2.prems" nq bs Cons u nneg
            obtain str' where "lexString (drop 6 (c # s)) = Some (str', rest)"
              by (auto simp: Let_def dest!: prepend_rest)
            from "2.IH"(3) [OF nq bs Cons u refl nneg False this]
            show ?thesis by simp
          qed
        next
          case nu: False
          with "2.prems" nq bs Cons
          obtain b str' where "unescape e = Some b" "lexString s' = Some (str', rest)"
            by (auto simp: Let_def dest!: prepend_rest split: option.splits)
          from "2.IH"(4) [OF nq bs Cons nu this]
          show ?thesis using Cons by simp
        qed
      qed
    next
      case nbs: False
      show ?thesis
      proof (cases "(of_char c :: int) < 0x80")
        case True
        with "2.prems" nq nbs
        obtain str' where c20: "\<not> (of_char c :: int) < 0x20" and "lexString s = Some (str', rest)"
          by (auto dest!: prepend_rest split: if_splits)
        from "2.IH"(5) [OF nq nbs c20 True this(2)]
        show ?thesis by simp
      next
        case False
        then have c20: "\<not> (of_char c :: int) < 0x20" by simp
        obtain r w where d: "DecodeRuneInString (c # s) = (r, w)"
          by (cases "DecodeRuneInString (c # s)")
        with "2.prems" nq nbs False c20
        obtain str' where "lexString (drop w (c # s)) = Some (str', rest)"
          by (auto dest!: prepend_rest)
        from "2.IH"(6) [OF nq nbs c20 False d [symmetric] this]
        show ?thesis by simp
      qed
    qed
  qed
qed

definition emit :: "token \<Rightarrow> token list option \<Rightarrow> token list option" where
  "emit t res = map_option ((#) t) res"

text \<open>
  The tokens of an input, or \<open>None\<close> where no token starts. White space
  (space, tab, carriage return, line feed) separates tokens.
\<close>

function lexJSON :: "string \<Rightarrow> token list option" where
  "lexJSON [] = Some []"
| "lexJSON (c # s) =
     (if isSpace c then lexJSON s
      else if c = CHR ''{'' then emit LBrace (lexJSON s)
      else if c = CHR ''}'' then emit RBrace (lexJSON s)
      else if c = CHR ''['' then emit LBracket (lexJSON s)
      else if c = CHR '']'' then emit RBracket (lexJSON s)
      else if c = CHR '':'' then emit Colon (lexJSON s)
      else if c = CHR '','' then emit Comma (lexJSON s)
      else if c = CHR 0x22 then
        (case lexString s of
           None \<Rightarrow> None
         | Some (str, rest) \<Rightarrow> emit (StringLit str) (lexJSON rest))
      else if c = CHR ''-'' \<or> isDigit c then
        (case scanNumber (c # s) of
           None \<Rightarrow> None
         | Some n \<Rightarrow> emit (NumberLit (take n (c # s))) (lexJSON (drop n (c # s))))
      else if take 4 (c # s) = ''true'' then emit TrueLit (lexJSON (drop 4 (c # s)))
      else if take 5 (c # s) = ''false'' then emit FalseLit (lexJSON (drop 5 (c # s)))
      else if take 4 (c # s) = ''null'' then emit NullLit (lexJSON (drop 4 (c # s)))
      else None)"
  by pat_completeness auto
termination
  apply (relation "measure length")
    apply simp_all
  subgoal for c s x2 x y using lexString_rest [of s x y] by simp
  subgoal for c s x2 using scanNumber_pos [of "c # s" x2] by simp
  done

subsection \<open>Values\<close>

datatype json =
    JNull
  | JBool bool
  | JNumber string
  | JString string
  | JArray "json list"
  | JObject "(string \<times> json) list"

text \<open>
  The scanner's stack (\<^verbatim>\<open>parseState\<close>) with the values read so far: an open array
  with its elements, an open object with its members and the key whose value is
  being read.
\<close>

datatype frame =
    ArrayFrame "json list"
  | ObjectFrame "(string \<times> json) list" "string option"

datatype expect =
    BeginValue | BeginValueOrEmpty | BeginStringOrEmpty | BeginString
  | EndKey | EndValue | EndTop

record scanner =
  parseState :: "frame list"
  step :: expect
  topValue :: "json option"

definition maxNestingDepth :: nat where
  "maxNestingDepth = 10000"

definition pushParseState :: "frame \<Rightarrow> expect \<Rightarrow> scanner \<Rightarrow> scanner option" where
  "pushParseState f e sc =
     (if length (f # parseState sc) \<le> maxNestingDepth
      then Some (sc\<lparr>parseState := f # parseState sc, step := e\<rparr>)
      else None)"

text \<open>A value is complete: it is the top-level value, an element, or a member's value.\<close>

definition endValue :: "json \<Rightarrow> frame list \<Rightarrow> scanner option" where
  "endValue v st =
     (case st of
        [] \<Rightarrow> Some \<lparr>parseState = [], step = EndTop, topValue = Some v\<rparr>
      | ArrayFrame xs # fs \<Rightarrow>
          Some \<lparr>parseState = ArrayFrame (xs @ [v]) # fs, step = EndValue, topValue = None\<rparr>
      | ObjectFrame ms (Some k) # fs \<Rightarrow>
          Some \<lparr>parseState = ObjectFrame (ms @ [(k, v)]) None # fs, step = EndValue, topValue = None\<rparr>
      | ObjectFrame ms None # fs \<Rightarrow> None)"

definition beginValue :: "scanner \<Rightarrow> token \<Rightarrow> scanner option" where
  "beginValue sc t =
     (case t of
        LBrace \<Rightarrow> pushParseState (ObjectFrame [] None) BeginStringOrEmpty sc
      | LBracket \<Rightarrow> pushParseState (ArrayFrame []) BeginValueOrEmpty sc
      | StringLit s \<Rightarrow> endValue (JString s) (parseState sc)
      | NumberLit n \<Rightarrow> endValue (JNumber n) (parseState sc)
      | TrueLit \<Rightarrow> endValue (JBool True) (parseState sc)
      | FalseLit \<Rightarrow> endValue (JBool False) (parseState sc)
      | NullLit \<Rightarrow> endValue JNull (parseState sc)
      | _ \<Rightarrow> None)"

definition beginString :: "scanner \<Rightarrow> token \<Rightarrow> scanner option" where
  "beginString sc t =
     (case (t, parseState sc) of
        (StringLit k, ObjectFrame ms None # fs) \<Rightarrow>
          Some (sc\<lparr>parseState := ObjectFrame ms (Some k) # fs, step := EndKey\<rparr>)
      | _ \<Rightarrow> None)"

definition closeArray :: "scanner \<Rightarrow> scanner option" where
  "closeArray sc =
     (case parseState sc of
        ArrayFrame xs # fs \<Rightarrow> endValue (JArray xs) fs
      | _ \<Rightarrow> None)"

definition closeObject :: "scanner \<Rightarrow> scanner option" where
  "closeObject sc =
     (case parseState sc of
        ObjectFrame ms None # fs \<Rightarrow> endValue (JObject ms) fs
      | _ \<Rightarrow> None)"

text \<open>One token, by the scanner's state.\<close>

definition scanToken :: "scanner \<Rightarrow> token \<Rightarrow> scanner option" where
  "scanToken sc t =
     (case step sc of
        BeginValue \<Rightarrow> beginValue sc t
      | BeginValueOrEmpty \<Rightarrow> (if t = RBracket then closeArray sc else beginValue sc t)
      | BeginStringOrEmpty \<Rightarrow> (if t = RBrace then closeObject sc else beginString sc t)
      | BeginString \<Rightarrow> beginString sc t
      | EndKey \<Rightarrow> (if t = Colon then Some (sc\<lparr>step := BeginValue\<rparr>) else None)
      | EndValue \<Rightarrow>
          (case parseState sc of
             ArrayFrame xs # fs \<Rightarrow>
               (if t = Comma then Some (sc\<lparr>step := BeginValue\<rparr>)
                else if t = RBracket then closeArray sc
                else None)
           | ObjectFrame ms k # fs \<Rightarrow>
               (if t = Comma then Some (sc\<lparr>step := BeginString\<rparr>)
                else if t = RBrace then closeObject sc
                else None)
           | [] \<Rightarrow> None)
      | EndTop \<Rightarrow> None)"

fun scanTokens :: "scanner \<Rightarrow> token list \<Rightarrow> scanner option" where
  "scanTokens sc [] = Some sc"
| "scanTokens sc (t # ts) =
     (case scanToken sc t of None \<Rightarrow> None | Some sc' \<Rightarrow> scanTokens sc' ts)"

text \<open>
  The value of an input, or \<open>None\<close> where \<^verbatim>\<open>checkValid\<close> returns a
  \<^verbatim>\<open>SyntaxError\<close> (also for an input that ends before its value does, and for one
  nested deeper than \<^verbatim>\<open>maxNestingDepth\<close>).
\<close>

definition decodeJSON :: "string \<Rightarrow> json option" where
  "decodeJSON data =
     (case lexJSON data of
        None \<Rightarrow> None
      | Some ts \<Rightarrow>
          (case scanTokens \<lparr>parseState = [], step = BeginValue, topValue = None\<rparr> ts of
             None \<Rightarrow> None
           | Some sc \<Rightarrow> (if step sc = EndTop then topValue sc else None)))"


subsection \<open>Storing a value into the configuration\<close>

text \<open>
  \<^verbatim>\<open>customDNSProviderConfig\<close> (main.go, lines 67 to 70). A Go map is a finite map;
  the \<^verbatim>\<open>nil\<close> map and the empty map are both \<^term>\<open>Map.empty\<close>.
\<close>

record customDNSProviderConfig =
  Labels :: "string \<rightharpoonup> string"
  Extra :: "string \<rightharpoonup> string"

text \<open>
  The errors of \<^verbatim>\<open>json.Unmarshal\<close>: a \<^verbatim>\<open>SyntaxError\<close> of \<^verbatim>\<open>checkValid\<close>, or the
  first \<^verbatim>\<open>UnmarshalTypeError\<close> met while storing, with the kind of JSON value
  that did not fit (its field \<^verbatim>\<open>Value\<close>).
\<close>

datatype json_error = SyntaxError | UnmarshalTypeError string

definition saveError :: "json_error \<Rightarrow> json_error option \<Rightarrow> json_error option" where
  "saveError e savedError = (case savedError of None \<Rightarrow> Some e | Some e0 \<Rightarrow> Some e0)"

text \<open>
  A value for a \<^verbatim>\<open>string\<close> (\<^verbatim>\<open>literalStore\<close>): a string is stored, \<^verbatim>\<open>null\<close> has
  no effect, anything else is a type error and leaves the string as it was.
\<close>

definition storeString :: "json \<Rightarrow> string \<times> json_error option \<Rightarrow> string \<times> json_error option" where
  "storeString v acc =
     (case acc of
        (s, savedError) \<Rightarrow>
          (case v of
             JString x \<Rightarrow> (x, savedError)
           | JNull \<Rightarrow> (s, savedError)
           | JBool b \<Rightarrow> (s, saveError (UnmarshalTypeError ''bool'') savedError)
           | JNumber n \<Rightarrow> (s, saveError (UnmarshalTypeError ''number'') savedError)
           | JArray xs \<Rightarrow> (s, saveError (UnmarshalTypeError ''array'') savedError)
           | JObject ms \<Rightarrow> (s, saveError (UnmarshalTypeError ''object'') savedError)))"

text \<open>
  A member of an object stored into a \<^verbatim>\<open>map[string]string\<close>: the element starts
  as the empty string, the member's value is stored into it, and the element is
  written under the key, also after a type error.
\<close>

definition storeMember ::
  "string \<times> json \<Rightarrow> (string \<rightharpoonup> string) \<times> json_error option
   \<Rightarrow> (string \<rightharpoonup> string) \<times> json_error option" where
  "storeMember kv acc =
     (case (kv, acc) of
        ((k, v), (m, savedError)) \<Rightarrow>
          (case storeString v ([], savedError) of
             (elem, savedError') \<Rightarrow> (m(k \<mapsto> elem), savedError')))"

text \<open>
  A value for a \<^verbatim>\<open>map[string]string\<close>: \<^verbatim>\<open>null\<close> sets the map to \<^verbatim>\<open>nil\<close>, an object
  adds its members to the map in their order, anything else is a type error.
\<close>

definition storeMap ::
  "json \<Rightarrow> (string \<rightharpoonup> string) \<times> json_error option
   \<Rightarrow> (string \<rightharpoonup> string) \<times> json_error option" where
  "storeMap v acc =
     (case acc of
        (m, savedError) \<Rightarrow>
          (case v of
             JNull \<Rightarrow> (Map.empty, savedError)
           | JObject ms \<Rightarrow> foldl (\<lambda>a kv. storeMember kv a) (m, savedError) ms
           | JString x \<Rightarrow> (m, saveError (UnmarshalTypeError ''string'') savedError)
           | JBool b \<Rightarrow> (m, saveError (UnmarshalTypeError ''bool'') savedError)
           | JNumber n \<Rightarrow> (m, saveError (UnmarshalTypeError ''number'') savedError)
           | JArray xs \<Rightarrow> (m, saveError (UnmarshalTypeError ''array'') savedError)))"

text \<open>
  The field of a key: the field whose name (its \<^verbatim>\<open>json\<close> tag) is the key, or
  else the field whose folded name is the folded key (\<^verbatim>\<open>foldName\<close>: ASCII letters to
  upper case, every other rune to the smallest rune of its fold orbit).
\<close>

datatype field = LabelsField | ExtraField

function foldName :: "unicode \<Rightarrow> string \<Rightarrow> string" where
  "foldName U [] = []"
| "foldName U (c # s) =
     (if (of_char c :: int) < 0x80 then
        (if (0x61 :: int) \<le> of_char c \<and> (of_char c :: int) \<le> 0x7A
         then char_of ((of_char c :: int) - 0x20) else c) # foldName U s
      else
        (case DecodeRuneInString (c # s) of
           (r, w) \<Rightarrow> EncodeRune (foldRune U r) @ foldName U (drop w (c # s))))"
  by pat_completeness auto
termination
  by (relation "measure (\<lambda>(U, s). length s)")
     (auto dest: DecodeRuneInString_pos [OF sym])

definition fieldByName :: "unicode \<Rightarrow> string \<Rightarrow> field option" where
  "fieldByName U key =
     (if key = ''labels'' then Some LabelsField
      else if key = ''extra'' then Some ExtraField
      else if foldName U key = ''LABELS'' then Some LabelsField
      else if foldName U key = ''EXTRA'' then Some ExtraField
      else None)"

text \<open>A member of an object stored into the struct; a key without a field is skipped.\<close>

definition storeField ::
  "unicode \<Rightarrow> string \<times> json \<Rightarrow> customDNSProviderConfig \<times> json_error option
   \<Rightarrow> customDNSProviderConfig \<times> json_error option" where
  "storeField U kv acc =
     (case (kv, acc) of
        ((k, v), (cfg, savedError)) \<Rightarrow>
          (case fieldByName U k of
             None \<Rightarrow> (cfg, savedError)
           | Some LabelsField \<Rightarrow>
               (case storeMap v (Labels cfg, savedError) of
                  (m, savedError') \<Rightarrow> (cfg\<lparr>Labels := m\<rparr>, savedError'))
           | Some ExtraField \<Rightarrow>
               (case storeMap v (Extra cfg, savedError) of
                  (m, savedError') \<Rightarrow> (cfg\<lparr>Extra := m\<rparr>, savedError'))))"

text \<open>
  A value for the struct: an object stores its members in their order, \<^verbatim>\<open>null\<close>
  has no effect, anything else is a type error.
\<close>

definition storeConfig ::
  "unicode \<Rightarrow> json \<Rightarrow> customDNSProviderConfig \<times> json_error option
   \<Rightarrow> customDNSProviderConfig \<times> json_error option" where
  "storeConfig U v acc =
     (case acc of
        (cfg, savedError) \<Rightarrow>
          (case v of
             JNull \<Rightarrow> (cfg, savedError)
           | JObject ms \<Rightarrow> foldl (\<lambda>a kv. storeField U kv a) (cfg, savedError) ms
           | JString x \<Rightarrow> (cfg, saveError (UnmarshalTypeError ''string'') savedError)
           | JBool b \<Rightarrow> (cfg, saveError (UnmarshalTypeError ''bool'') savedError)
           | JNumber n \<Rightarrow> (cfg, saveError (UnmarshalTypeError ''number'') savedError)
           | JArray xs \<Rightarrow> (cfg, saveError (UnmarshalTypeError ''array'') savedError)))"

text \<open>
  \<^verbatim>\<open>json.Unmarshal(data, &cfg)\<close>: the configuration after the call and the error
  returned. On a syntax error nothing is stored.
\<close>

definition Unmarshal ::
  "unicode \<Rightarrow> string \<Rightarrow> customDNSProviderConfig
   \<Rightarrow> customDNSProviderConfig \<times> json_error option" where
  "Unmarshal U data cfg =
     (case decodeJSON data of
        None \<Rightarrow> (cfg, Some SyntaxError)
      | Some v \<Rightarrow> storeConfig U v (cfg, None))"

subsection \<open>The config loader\<close>

text \<open>
  The errors the solver returns: the wrapped decoding error of \<^verbatim>\<open>loadConfig\<close>
  (\<^verbatim>\<open>fmt.Errorf("error decoding solver config: %v", err)\<close>), the API server's
  not-found, already-exists and conflict statuses, and any other failure of a store
  call with its message.
\<close>

datatype error =
    ConfigDecodeError json_error
  | NotFound
  | AlreadyExists
  | Conflict
  | StoreFailure string

text \<open>
  \<^verbatim>\<open>loadConfig\<close> (main.go, lines 180 to 191). \<open>cfgJSON\<close> is the pointer
  \<^verbatim>\<open>*extapi.JSON\<close>: \<open>None\<close> for \<^verbatim>\<open>nil\<close>, \<open>Some raw\<close> for a value whose field \<^verbatim>\<open>Raw\<close>
  holds the bytes \<open>raw\<close>. The result is the pair the Go function returns.
\<close>

definition loadConfig ::
  "unicode \<Rightarrow> string option \<Rightarrow> customDNSProviderConfig \<times> error option" where
  "loadConfig U cfgJSON =
     (let cfg = \<lparr>Labels = Map.empty, Extra = Map.empty\<rparr> in
      case cfgJSON of
        None \<Rightarrow> (cfg, None)
      | Some raw \<Rightarrow>
          (case Unmarshal U raw cfg of
             (cfg', Some err) \<Rightarrow> (cfg', Some (ConfigDecodeError err))
           | (cfg', None) \<Rightarrow> (cfg', None)))"

subsection \<open>Shapes of values\<close>










section \<open>The record reconciler\<close>

subsection \<open>Challenge requests, DNS records and the store client\<close>

text \<open>
  \<^verbatim>\<open>v1alpha1.ChallengeRequest\<close> (cert-manager): the fields the solver reads.
  \<^verbatim>\<open>ch.UID\<close> is only logged. \<open>Config\<close> is the pointer \<^verbatim>\<open>*extapi.JSON\<close>, see
  \<^term>\<open>loadConfig\<close>.
\<close>

record ChallengeRequest =
  ResolvedFQDN :: string
  ResourceNamespace :: string
  Key :: string
  Config :: "string option"

text \<open>
  \<^verbatim>\<open>dnsv1.Record\<close> (kube-dns-manager): the object's name, namespace, UID and labels
  (its \<^verbatim>\<open>ObjectMeta\<close>) and the four fields of its \<^verbatim>\<open>Spec\<close> the solver writes.
  \<open>Other\<close> stands for every other field of the object (annotations, finalizers,
  resource version, status, ...), which the solver never touches.
\<close>

record dnsv1_Record =
  Name :: string
  Namespace :: string
  UID :: string
  ObjectMeta_Labels :: "string \<rightharpoonup> string"
  Spec_Name :: string
  Spec_Type :: string
  Spec_Value :: string
  Spec_Extra :: "string \<rightharpoonup> string"
  Other :: "string \<rightharpoonup> string"

text \<open>The zero value \<^verbatim>\<open>dnsv1.Record{}\<close>.\<close>

definition zeroRecord :: dnsv1_Record where
  "zeroRecord =
     \<lparr>Name = [], Namespace = [], UID = [], ObjectMeta_Labels = Map.empty, Spec_Name = [],
      Spec_Type = [], Spec_Value = [], Spec_Extra = Map.empty, Other = Map.empty\<rparr>"

text \<open>\<^verbatim>\<open>client.ObjectKey{Namespace, Name}\<close>.\<close>

type_synonym ObjectKey = "string \<times> string"

definition objectKey :: "dnsv1_Record \<Rightarrow> ObjectKey" where
  "objectKey r = (Namespace r, Name r)"

text \<open>
  \<^verbatim>\<open>client.Client\<close> (controller-runtime) is an interface; the solver holds one in
  its field \<^verbatim>\<open>client\<close>. An implementation is four functions on a store state \<open>'s\<close>.
  \<open>Get\<close> returns the error and the object it was handed, as the call leaves it.
  \<open>Create\<close>, \<open>Update\<close> and \<open>Delete\<close> return the error only: the solver does not read
  the object again after them.
\<close>

record 's Client =
  Get :: "ObjectKey \<Rightarrow> dnsv1_Record \<Rightarrow> 's \<Rightarrow> (error option \<times> dnsv1_Record) \<times> 's"
  Create :: "dnsv1_Record \<Rightarrow> 's \<Rightarrow> error option \<times> 's"
  Update :: "dnsv1_Record \<Rightarrow> 's \<Rightarrow> error option \<times> 's"
  Delete :: "dnsv1_Record \<Rightarrow> 's \<Rightarrow> error option \<times> 's"

record 's customDNSProviderSolver =
  client :: "'s Client"

text \<open>\<^verbatim>\<open>client.IgnoreNotFound\<close>.\<close>

definition IgnoreNotFound :: "error option \<Rightarrow> error option" where
  "IgnoreNotFound err = (if err = Some NotFound then None else err)"

text \<open>
  The world a call of the solver runs in: the state of the store behind the client,
  and the list of the client calls made so far, which the model keeps so that
  theorems can say which calls a run makes. Every \<^verbatim>\<open>c.client.X(...)\<close> of the source
  is one of the four functions below: it notes the call and runs the client's
  function on the store.
\<close>

datatype call =
    GetCall ObjectKey
  | CreateCall dnsv1_Record
  | UpdateCall dnsv1_Record
  | DeleteCall dnsv1_Record

record 's world =
  calls :: "call list"
  store :: 's

definition client_Get ::
  "'s Client \<Rightarrow> ObjectKey \<Rightarrow> dnsv1_Record \<Rightarrow> 's world
   \<Rightarrow> (error option \<times> dnsv1_Record) \<times> 's world" where
  "client_Get cl key obj w =
     (case Get cl key obj (store w) of
        (res, s) \<Rightarrow> (res, \<lparr>calls = calls w @ [GetCall key], store = s\<rparr>))"

definition client_Create :: "'s Client \<Rightarrow> dnsv1_Record \<Rightarrow> 's world \<Rightarrow> error option \<times> 's world" where
  "client_Create cl obj w =
     (case Create cl obj (store w) of
        (err, s) \<Rightarrow> (err, \<lparr>calls = calls w @ [CreateCall obj], store = s\<rparr>))"

definition client_Update :: "'s Client \<Rightarrow> dnsv1_Record \<Rightarrow> 's world \<Rightarrow> error option \<times> 's world" where
  "client_Update cl obj w =
     (case Update cl obj (store w) of
        (err, s) \<Rightarrow> (err, \<lparr>calls = calls w @ [UpdateCall obj], store = s\<rparr>))"

definition client_Delete :: "'s Client \<Rightarrow> dnsv1_Record \<Rightarrow> 's world \<Rightarrow> error option \<times> 's world" where
  "client_Delete cl obj w =
     (case Delete cl obj (store w) of
        (err, s) \<Rightarrow> (err, \<lparr>calls = calls w @ [DeleteCall obj], store = s\<rparr>))"

subsection \<open>Present and CleanUp\<close>

text \<open>
  \<^verbatim>\<open>Present\<close> (main.go, lines 87 to 128): the error returned and the world after the
  call. The \<^verbatim>\<open>klog\<close> lines write to the log only and are left out.
\<close>

definition Present ::
  "unicode \<Rightarrow> 's customDNSProviderSolver \<Rightarrow> ChallengeRequest \<Rightarrow> 's world
   \<Rightarrow> error option \<times> 's world" where
  "Present U c ch w =
     (case loadConfig U (Config ch) of
        (cfg, Some err) \<Rightarrow> (Some err, w)
      | (cfg, None) \<Rightarrow>
          (let dnsRecord0 = zeroRecord\<lparr>Name := getRecordName U (ResolvedFQDN ch)\<rparr> in
           case client_Get (client c) (ResourceNamespace ch, Name dnsRecord0) dnsRecord0 w of
             ((err, dnsRecord1), w1) \<Rightarrow>
               if IgnoreNotFound err \<noteq> None then (err, w1)
               else
                 (let dnsRecord2 = dnsRecord1
                        \<lparr>Namespace := ResourceNamespace ch,
                         ObjectMeta_Labels := Labels cfg,
                         Spec_Name := ResolvedFQDN ch,
                         Spec_Type := ''TXT'',
                         Spec_Value := Key ch,
                         Spec_Extra := Extra cfg\<rparr>;
                      dnsRecord3 =
                        (if strings_HasSuffix (ResolvedFQDN ch) ''.''
                         then dnsRecord2
                           \<lparr>Spec_Name := take (length (ResolvedFQDN ch) - 1) (ResolvedFQDN ch)\<rparr>
                         else dnsRecord2)
                  in if UID dnsRecord3 = []
                     then client_Create (client c) dnsRecord3 w1
                     else client_Update (client c) dnsRecord3 w1)))"

text \<open>
  \<^verbatim>\<open>CleanUp\<close> (main.go, lines 136 to 152). The deferred function only logs the
  error.
\<close>

definition CleanUp ::
  "unicode \<Rightarrow> 's customDNSProviderSolver \<Rightarrow> ChallengeRequest \<Rightarrow> 's world
   \<Rightarrow> error option \<times> 's world" where
  "CleanUp U c ch w =
     (let dnsRecord0 = zeroRecord\<lparr>Name := getRecordName U (ResolvedFQDN ch)\<rparr> in
      case client_Get (client c) (ResourceNamespace ch, Name dnsRecord0) dnsRecord0 w of
        ((err, dnsRecord1), w1) \<Rightarrow>
          if err \<noteq> None then (IgnoreNotFound err, w1)
          else client_Delete (client c) dnsRecord1 w1)"

text \<open>
  The identity a challenge is mapped to and the body \<^verbatim>\<open>Present\<close> writes, after the
  specification (section 4.3, steps 1 and 4): the fetched object with its namespace,
  labels, record name, type, value and extra overwritten.
\<close>

definition derivedIdentity :: "unicode \<Rightarrow> ChallengeRequest \<Rightarrow> ObjectKey" where
  "derivedIdentity U ch = (ResourceNamespace ch, getRecordName U (ResolvedFQDN ch))"

definition stripTrailingDot :: "string \<Rightarrow> string" where
  "stripTrailingDot d = (if d \<noteq> [] \<and> last d = CHR ''.'' then butlast d else d)"

definition desiredBody ::
  "customDNSProviderConfig \<Rightarrow> ChallengeRequest \<Rightarrow> dnsv1_Record \<Rightarrow> dnsv1_Record" where
  "desiredBody cfg ch fetched =
     fetched
       \<lparr>Namespace := ResourceNamespace ch,
        ObjectMeta_Labels := Labels cfg,
        Spec_Name := stripTrailingDot (ResolvedFQDN ch),
        Spec_Type := ''TXT'',
        Spec_Value := Key ch,
        Spec_Extra := Extra cfg\<rparr>"

subsection \<open>An in-memory store\<close>

text \<open>
  Modelled from the spec: the store behind the client (the Kubernetes API server
  and the controller-runtime client) is not part of the repository. The model
  follows sections 3, 6 and 9 of the specification: a keyed, namespaced store with
  get, create, update and delete, where get reports not-found for an absent
  identity, create assigns the presence token (the UID), update persists a body
  under its identity and must carry the existing presence token, and delete removes
  by identity. Each call may also fail for a reason of the infrastructure
  (section 7): \<open>faults\<close> lists what the environment does to the coming calls,
  \<open>Some msg\<close> making the next call fail with that message and change nothing.
\<close>

record memStore =
  objects :: "dnsv1_Record list"
  nextUID :: nat
  faults :: "string option list"

definition freshUID :: "nat \<Rightarrow> string" where
  "freshUID n = ''uid-'' @ replicate n (CHR ''1'')"

definition lookup :: "ObjectKey \<Rightarrow> dnsv1_Record list \<Rightarrow> dnsv1_Record option" where
  "lookup key rs = find (\<lambda>r. objectKey r = key) rs"

definition resourcesAt :: "ObjectKey \<Rightarrow> dnsv1_Record list \<Rightarrow> dnsv1_Record list" where
  "resourcesAt key rs = filter (\<lambda>r. objectKey r = key) rs"

text \<open>The fault of the coming call, and the store once the call has begun.\<close>

definition nextFault :: "memStore \<Rightarrow> string option" where
  "nextFault s = (case faults s of [] \<Rightarrow> None | f # fs \<Rightarrow> f)"

definition begun :: "memStore \<Rightarrow> memStore" where
  "begun s = s\<lparr>faults := tl (faults s)\<rparr>"

definition memGet ::
  "ObjectKey \<Rightarrow> dnsv1_Record \<Rightarrow> memStore \<Rightarrow> (error option \<times> dnsv1_Record) \<times> memStore" where
  "memGet key obj s =
     (case nextFault s of
        Some msg \<Rightarrow> ((Some (StoreFailure msg), obj), begun s)
      | None \<Rightarrow>
          (case lookup key (objects s) of
             None \<Rightarrow> ((Some NotFound, obj), begun s)
           | Some r \<Rightarrow> ((None, r), begun s)))"

definition memCreate :: "dnsv1_Record \<Rightarrow> memStore \<Rightarrow> error option \<times> memStore" where
  "memCreate obj s =
     (case nextFault s of
        Some msg \<Rightarrow> (Some (StoreFailure msg), begun s)
      | None \<Rightarrow>
          (case lookup (objectKey obj) (objects s) of
             Some r \<Rightarrow> (Some AlreadyExists, begun s)
           | None \<Rightarrow>
               (None, (begun s)
                  \<lparr>objects := objects s @ [obj\<lparr>UID := freshUID (nextUID s)\<rparr>],
                   nextUID := Suc (nextUID s)\<rparr>)))"

definition memUpdate :: "dnsv1_Record \<Rightarrow> memStore \<Rightarrow> error option \<times> memStore" where
  "memUpdate obj s =
     (case nextFault s of
        Some msg \<Rightarrow> (Some (StoreFailure msg), begun s)
      | None \<Rightarrow>
          (case lookup (objectKey obj) (objects s) of
             None \<Rightarrow> (Some NotFound, begun s)
           | Some r \<Rightarrow>
               if UID obj \<noteq> UID r then (Some Conflict, begun s)
               else
                 (None, (begun s)
                    \<lparr>objects :=
                       map (\<lambda>x. if objectKey x = objectKey obj then obj else x) (objects s)\<rparr>)))"

definition memDelete :: "dnsv1_Record \<Rightarrow> memStore \<Rightarrow> error option \<times> memStore" where
  "memDelete obj s =
     (case nextFault s of
        Some msg \<Rightarrow> (Some (StoreFailure msg), begun s)
      | None \<Rightarrow>
          (case lookup (objectKey obj) (objects s) of
             None \<Rightarrow> (Some NotFound, begun s)
           | Some r \<Rightarrow>
               (None, (begun s)
                  \<lparr>objects := filter (\<lambda>x. objectKey x \<noteq> objectKey obj) (objects s)\<rparr>)))"

definition memClient :: "memStore Client" where
  "memClient = \<lparr>Get = memGet, Create = memCreate, Update = memUpdate, Delete = memDelete\<rparr>"

definition memSolver :: "memStore customDNSProviderSolver" where
  "memSolver = \<lparr>client = memClient\<rparr>"

text \<open>
  A well-formed store holds at most one resource per identity, and every resource
  it holds has a presence token.
\<close>

definition wellFormed :: "memStore \<Rightarrow> bool" where
  "wellFormed s =
     (distinct (map objectKey (objects s)) \<and> list_all (\<lambda>r. UID r \<noteq> []) (objects s))"

definition emptyStore :: memStore where
  "emptyStore = \<lparr>objects = [], nextUID = 0, faults = []\<rparr>"

definition emptyWorld :: "memStore world" where
  "emptyWorld = \<lparr>calls = [], store = emptyStore\<rparr>"

text \<open>The coming \<open>n\<close> calls are not made to fail by the environment.\<close>

definition quiet :: "nat \<Rightarrow> memStore \<Rightarrow> bool" where
  "quiet n s = list_all (\<lambda>f. f = None) (take n (faults s))"

subsection \<open>A sample challenge and sample worlds\<close>

text \<open>
  The challenge of the scenario of the specification (section 8), the same challenge
  with a configuration that does not decode, a resource stored at its identity with
  another token, and the store holding that resource.
\<close>

definition sampleChallenge :: ChallengeRequest where
  "sampleChallenge =
     \<lparr>ResolvedFQDN = ''_acme-challenge.foo.example.com.'', ResourceNamespace = ''default'',
      Key = ''abc123'', Config = None\<rparr>"

definition brokenChallenge :: ChallengeRequest where
  "brokenChallenge = sampleChallenge\<lparr>Config := Some ''{''\<rparr>"

definition staleRecord :: dnsv1_Record where
  "staleRecord =
     \<lparr>Name = ''acme--acme-challenge-foo-example-com'', Namespace = ''default'',
      UID = ''uid-'', ObjectMeta_Labels = Map.empty,
      Spec_Name = ''_acme-challenge.foo.example.com'', Spec_Type = ''TXT'',
      Spec_Value = ''old-token'', Spec_Extra = Map.empty, Other = Map.empty\<rparr>"

definition staleWorld :: "memStore world" where
  "staleWorld = \<lparr>calls = [], store = \<lparr>objects = [staleRecord], nextUID = 1, faults = []\<rparr>\<rparr>"

definition presentedRecord :: dnsv1_Record where
  "presentedRecord = staleRecord\<lparr>Spec_Value := ''abc123''\<rparr>"

definition presentedWorld :: "memStore world" where
  "presentedWorld =
     \<lparr>calls = [GetCall (''default'', ''acme--acme-challenge-foo-example-com''),
               CreateCall (presentedRecord\<lparr>UID := []\<rparr>)],
      store = \<lparr>objects = [presentedRecord], nextUID = 1, faults = []\<rparr>\<rparr>"

section \<open>Properties of the library functions\<close>

text \<open>
  A sequence of two, three or four bytes decodes to a rune above U+007F: only a
  single ASCII byte decodes to an ASCII rune.
\<close>

lemma rune2_lower:
  fixes a b :: int
  assumes "194 \<le> a" "a < 224"
  shows "128 \<le> a mod 32 * 64 + b mod 64"
proof -
  define x y where "x = a mod 32" and "y = b mod 64"
  have "2 \<le> x" using assms unfolding x_def by presburger
  moreover have "0 \<le> y" unfolding y_def by simp
  ultimately have "128 \<le> x * 64 + y" by linarith
  then show ?thesis by (simp add: x_def y_def)
qed

lemma rune3_lower:
  fixes a b c :: int
  assumes "224 \<le> a" "a < 240" "a = 224 \<longrightarrow> 160 \<le> b \<and> b \<le> 191"
  shows "128 \<le> a mod 16 * 4096 + b mod 64 * 64 + c mod 64"
proof -
  define x y z where "x = a mod 16" and "y = b mod 64" and "z = c mod 64"
  have "0 \<le> x" "0 \<le> y" "0 \<le> z" unfolding x_def y_def z_def by simp_all
  moreover have "1 \<le> x \<or> 32 \<le> y"
  proof (cases "a = 224")
    case True
    then have "160 \<le> b" "b \<le> 191" using assms by simp_all
    then have "32 \<le> y" unfolding y_def by presburger
    then show ?thesis ..
  next
    case False
    then have "1 \<le> x" using assms(1,2) unfolding x_def by presburger
    then show ?thesis ..
  qed
  ultimately have "128 \<le> x * 4096 + y * 64 + z" by linarith
  then show ?thesis by (simp add: x_def y_def z_def)
qed

lemma rune4_lower:
  fixes a b c d :: int
  assumes "240 \<le> a" "a \<le> 244" "a = 240 \<longrightarrow> 144 \<le> b \<and> b \<le> 191"
  shows "128 \<le> a mod 8 * 262144 + b mod 64 * 4096 + c mod 64 * 64 + d mod 64"
proof -
  define x y z u where "x = a mod 8" and "y = b mod 64" and "z = c mod 64" and "u = d mod 64"
  have "0 \<le> x" "0 \<le> y" "0 \<le> z" "0 \<le> u" unfolding x_def y_def z_def u_def by simp_all
  moreover have "1 \<le> x \<or> 16 \<le> y"
  proof (cases "a = 240")
    case True
    then have "144 \<le> b" "b \<le> 191" using assms by simp_all
    then have "16 \<le> y" unfolding y_def by presburger
    then show ?thesis ..
  next
    case False
    then have "1 \<le> x" using assms(1,2) unfolding x_def by presburger
    then show ?thesis ..
  qed
  ultimately have "128 \<le> x * 262144 + y * 4096 + z * 64 + u" by linarith
  then show ?thesis by (simp add: x_def y_def z_def u_def)
qed

lemma DecodeRuneInString_cases:
  assumes "DecodeRuneInString (c # s) = (r, w)"
  shows "(r = of_char c \<and> w = 1 \<and> (of_char c :: int) < 0x80) \<or> (0x80 \<le> r \<and> 1 \<le> w)"
proof (cases "(of_char c :: int) < 0x80")
  case True
  then show ?thesis using assms by (simp add: DecodeRuneInString.simps(2))
next
  case False
  define a where "a = (of_char c :: int)"
  define b1 where "b1 = (of_char (s ! 0) :: int)"
  define b2 where "b2 = (of_char (s ! 1) :: int)"
  define b3 where "b3 = (of_char (s ! 2) :: int)"
  have w: "1 \<le> w" using DecodeRuneInString_pos [OF assms] by simp
  have r: "r = RuneError \<or> (194 \<le> a \<and> a < 224 \<and> r = a mod 32 * 64 + b1 mod 64)
     \<or> (224 \<le> a \<and> a < 240 \<and> (a = 224 \<longrightarrow> 160 \<le> b1 \<and> b1 \<le> 191)
          \<and> r = a mod 16 * 4096 + b1 mod 64 * 64 + b2 mod 64)
     \<or> (240 \<le> a \<and> a \<le> 244 \<and> (a = 240 \<longrightarrow> 144 \<le> b1 \<and> b1 \<le> 191)
          \<and> r = a mod 8 * 262144 + b1 mod 64 * 4096 + b2 mod 64 * 64 + b3 mod 64)"
    using assms False unfolding a_def b1_def b2_def b3_def
    by (auto simp add: DecodeRuneInString.simps(2) Let_def split: if_splits)
  have "0x80 \<le> r"
    using r rune2_lower [of a b1] rune3_lower [of a b1 b2] rune4_lower [of a b1 b2 b3]
    by (auto simp: RuneError_def)
  then show ?thesis using w by simp
qed

lemma DecodeRuneInString_in_class:
  assumes "DecodeRuneInString (c # s) = (r, w)" and "in_class r"
  shows "w = 1 \<and> char_of r = c"
proof -
  have "r < 0x80" using assms(2) by (auto simp: in_class_def)
  then have "r = of_char c \<and> w = 1"
    using DecodeRuneInString_cases [OF assms(1)] by auto
  then show ?thesis by simp
qed

lemma ReplaceAllString_runes:
  "ReplaceAllString s ''-'' = map replace_outside_class (runes s)"
proof (induction s rule: runes.induct)
  case 1
  show ?case by simp
next
  case (2 c s)
  obtain r w where d: "DecodeRuneInString (c # s) = (r, w)"
    by (cases "DecodeRuneInString (c # s)")
  have "(if in_class r then take w (c # s) else ''-'') = [replace_outside_class r]"
    using DecodeRuneInString_in_class [OF d] by (simp add: replace_outside_class_def)
  then show ?case using 2 [OF d [symmetric]] d by simp
qed

lemma trimRightByte_snoc:
  "trimRightByte (s @ [x]) c = (if x = c then trimRightByte s c else s @ [x])"
  by (subst trimRightByte.simps) simp

lemma trimRightByte_strip:
  "trimRightByte s c = rev (dropWhile (\<lambda>x. x = c) (rev s))"
proof (induction s rule: rev_induct)
  case Nil
  show ?case by (subst trimRightByte.simps) simp
next
  case (snoc x s)
  then show ?case by (simp add: trimRightByte_snoc)
qed

text \<open>On a string of ASCII bytes the two paths of \<^verbatim>\<open>strings.ToLower\<close> agree.\<close>

lemma strings_Map_ASCII:
  "isASCII s \<Longrightarrow> strings_Map (unicode_ToLower U) s = map lowerByte s"
proof (induction s)
  case Nil
  show ?case by simp
next
  case (Cons c s)
  then have c: "(of_char c :: int) < 0x80" and s: "isASCII s"
    by (simp_all add: isASCII_def)
  have d: "DecodeRuneInString (c # s) = (of_char c, 1)"
    using c by (simp add: DecodeRuneInString.simps(2))
  have nn: "(0::int) \<le> of_char c" by (simp add: of_char_def)
  have "EncodeRune (unicode_ToLower U (of_char c)) = [lowerByte c]"
    using c nn by (auto simp: EncodeRune_def unicode_ToLower_def lowerByte_def)
  moreover have "0 \<le> unicode_ToLower U (of_char c)"
    using c nn by (auto simp: unicode_ToLower_def)
  ultimately show ?case using Cons.IH [OF s] d by simp
qed

text \<open>
  The decoder and the encoder agree: a valid encoding is the encoding of the rune
  it decodes to. So \<^verbatim>\<open>strings.Map\<close>, which copies a rune its mapping leaves
  unchanged, writes what \<^term>\<open>strings_Map\<close> writes.
\<close>

lemma cont_byte: "(128::int) \<le> b \<Longrightarrow> b \<le> 191 \<Longrightarrow> b mod 64 = b - 128"
  by presburger

lemma lead2_byte: "(192::int) \<le> a \<Longrightarrow> a < 224 \<Longrightarrow> a mod 32 = a - 192"
  by presburger

lemma lead3_byte: "(224::int) \<le> a \<Longrightarrow> a < 240 \<Longrightarrow> a mod 16 = a - 224"
  by presburger

lemma lead4_byte: "(240::int) \<le> a \<Longrightarrow> a < 248 \<Longrightarrow> a mod 8 = a - 240"
  by presburger

lemma digits2:
  fixes x y :: int
  assumes "0 \<le> y" "y < 64"
  shows "(x * 64 + y) div 64 = x" "(x * 64 + y) mod 64 = y"
  using assms by simp_all

lemma digits3:
  fixes x y z :: int
  assumes "0 \<le> y" "y < 64" "0 \<le> z" "z < 64"
  shows "(x * 4096 + y * 64 + z) div 4096 = x"
    "(x * 4096 + y * 64 + z) div 64 mod 64 = y"
    "(x * 4096 + y * 64 + z) mod 64 = z"
proof -
  have e: "x * 4096 + y * 64 + z = (x * 64 + y) * 64 + z" by simp
  have d: "(x * 4096 + y * 64 + z) div 64 = x * 64 + y"
    unfolding e using digits2(1) [OF assms(3,4)] .
  show "(x * 4096 + y * 64 + z) div 64 mod 64 = y"
    unfolding d using digits2(2) [OF assms(1,2)] .
  show "(x * 4096 + y * 64 + z) mod 64 = z"
    unfolding e using digits2(2) [OF assms(3,4)] .
  have "(x * 4096 + y * 64 + z) div 4096 = (x * 4096 + y * 64 + z) div 64 div 64"
    by (simp add: div_mult2_eq [symmetric])
  then show "(x * 4096 + y * 64 + z) div 4096 = x"
    unfolding d using digits2(1) [OF assms(1,2)] by simp
qed

lemma digits4:
  fixes x y z u :: int
  assumes "0 \<le> y" "y < 64" "0 \<le> z" "z < 64" "0 \<le> u" "u < 64"
  shows "(x * 262144 + y * 4096 + z * 64 + u) div 262144 = x"
    "(x * 262144 + y * 4096 + z * 64 + u) div 4096 mod 64 = y"
    "(x * 262144 + y * 4096 + z * 64 + u) div 64 mod 64 = z"
    "(x * 262144 + y * 4096 + z * 64 + u) mod 64 = u"
proof -
  let ?r = "x * 262144 + y * 4096 + z * 64 + u"
  have e: "?r = ((x * 64 + y) * 4096 + z * 64 + u)" by simp
  show "?r mod 64 = u" unfolding e using digits3(3) [OF assms(3,4,5,6)] .
  show "?r div 64 mod 64 = z" unfolding e using digits3(2) [OF assms(3,4,5,6)] .
  have d: "?r div 4096 = x * 64 + y"
    unfolding e using digits3(1) [OF assms(3,4,5,6)] .
  show "?r div 4096 mod 64 = y"
    unfolding d using digits2(2) [OF assms(1,2)] .
  have "?r div 262144 = ?r div 4096 div 64"
    by (simp add: div_mult2_eq [symmetric])
  then show "?r div 262144 = x"
    unfolding d using digits2(1) [OF assms(1,2)] by simp
qed

lemma EncodeRune_DecodeRuneInString:
  assumes dec: "DecodeRuneInString (c # s) = (r, w)"
    and valid: "\<not> (r = RuneError \<and> w = 1)"
  shows "EncodeRune r = take w (c # s)"
proof -
  define a where "a = (of_char c :: int)"
  define b1 where "b1 = (of_char (s ! 0) :: int)"
  define b2 where "b2 = (of_char (s ! 1) :: int)"
  define b3 where "b3 = (of_char (s ! 2) :: int)"
  have a: "0 \<le> a" "a < 256" by (simp_all add: a_def of_char_def)
  have ca: "char_of a = c" and c1: "char_of b1 = s ! 0" and c2: "char_of b2 = s ! 1"
    and c3: "char_of b3 = s ! 2"
    by (simp_all add: a_def b1_def b2_def b3_def)
  from dec valid consider
      (one) "a < 128" "r = a" "w = 1"
    | (two) "194 \<le> a" "a < 224" "1 \<le> length s" "128 \<le> b1" "b1 \<le> 191"
        "r = a mod 32 * 64 + b1 mod 64" "w = 2"
    | (three) "224 \<le> a" "a < 240" "2 \<le> length s" "128 \<le> b1" "b1 \<le> 191"
        "a = 224 \<longrightarrow> 160 \<le> b1" "a = 237 \<longrightarrow> b1 \<le> 159" "128 \<le> b2" "b2 \<le> 191"
        "r = a mod 16 * 4096 + b1 mod 64 * 64 + b2 mod 64" "w = 3"
    | (four) "240 \<le> a" "a \<le> 244" "3 \<le> length s" "128 \<le> b1" "b1 \<le> 191"
        "a = 240 \<longrightarrow> 144 \<le> b1" "a = 244 \<longrightarrow> b1 \<le> 143" "128 \<le> b2" "b2 \<le> 191"
        "128 \<le> b3" "b3 \<le> 191"
        "r = a mod 8 * 262144 + b1 mod 64 * 4096 + b2 mod 64 * 64 + b3 mod 64" "w = 4"
    unfolding a_def b1_def b2_def b3_def
    by (auto simp add: DecodeRuneInString.simps(2) Let_def split: if_splits)
  then show ?thesis
  proof cases
    case one
    then show ?thesis using a ca by (simp add: EncodeRune_def)
  next
    case two
    define x y where "x = a - 192" and "y = b1 - 128"
    have xy: "0 \<le> x" "x < 32" "2 \<le> x" "0 \<le> y" "y < 64"
      using two by (simp_all add: x_def y_def)
    have r: "r = x * 64 + y"
      using two by (simp add: x_def y_def lead2_byte cont_byte)
    have range: "128 \<le> r" "r \<le> 2047" using xy unfolding r by simp_all
    have "r div 64 = x" "r mod 64 = y"
      unfolding r using digits2 [OF xy(4,5)] by simp_all
    then have enc: "EncodeRune r = [char_of (192 + x), char_of (128 + y)]"
      using range by (simp add: EncodeRune_def)
    have "192 + x = a" "128 + y = b1" by (simp_all add: x_def y_def)
    then have "EncodeRune r = [c, s ! 0]" using enc ca c1 by simp
    moreover have "take 2 (c # s) = [c, s ! 0]"
      using two(3) by (cases s) simp_all
    ultimately show ?thesis using two(7) by simp
  next
    case three
    define x y z where "x = a - 224" and "y = b1 - 128" and "z = b2 - 128"
    have xyz: "0 \<le> x" "x < 16" "0 \<le> y" "y < 64" "0 \<le> z" "z < 64"
      using three by (simp_all add: x_def y_def z_def)
    have lo: "x = 0 \<longrightarrow> 32 \<le> y" and hi: "x = 13 \<longrightarrow> y < 32"
      using three by (auto simp: x_def y_def)
    have r: "r = x * 4096 + y * 64 + z"
      using three by (simp add: x_def y_def z_def lead3_byte cont_byte)
    have range: "2048 \<le> r" "r \<le> 65535"
      using xyz lo unfolding r by auto
    have surrogate: "\<not> (55296 \<le> r \<and> r \<le> 57343)"
    proof (cases "x = 13")
      case True
      then have "y < 32" using hi by simp
      then show ?thesis using True xyz unfolding r by simp
    next
      case False
      then have "x \<le> 12 \<or> 14 \<le> x" by arith
      then show ?thesis using xyz unfolding r by auto
    qed
    have "r div 4096 = x" "r div 64 mod 64 = y" "r mod 64 = z"
      unfolding r using digits3 [OF xyz(3,4,5,6)] by simp_all
    then have enc: "EncodeRune r = [char_of (224 + x), char_of (128 + y), char_of (128 + z)]"
      using range surrogate by (auto simp: EncodeRune_def)
    have "224 + x = a" "128 + y = b1" "128 + z = b2" by (simp_all add: x_def y_def z_def)
    then have "EncodeRune r = [c, s ! 0, s ! 1]" using enc ca c1 c2 by simp
    moreover have "take 3 (c # s) = [c, s ! 0, s ! 1]"
    proof (cases s)
      case Nil
      then show ?thesis using three(3) by simp
    next
      case (Cons p s')
      then show ?thesis using three(3) by (cases s') (simp_all add: numeral_3_eq_3)
    qed
    ultimately show ?thesis using three(11) by simp
  next
    case four
    define x y z u where "x = a - 240" and "y = b1 - 128" and "z = b2 - 128" and "u = b3 - 128"
    have xyz: "0 \<le> x" "x \<le> 4" "0 \<le> y" "y < 64" "0 \<le> z" "z < 64" "0 \<le> u" "u < 64"
      using four by (simp_all add: x_def y_def z_def u_def)
    have lo: "x = 0 \<longrightarrow> 16 \<le> y" and hi: "x = 4 \<longrightarrow> y < 16"
      using four by (auto simp: x_def y_def)
    have r: "r = x * 262144 + y * 4096 + z * 64 + u"
      using four by (simp add: x_def y_def z_def u_def lead4_byte cont_byte)
    have range: "65536 \<le> r" "r \<le> 1114111"
      using xyz lo hi unfolding r by auto
    have "r div 262144 = x" "r div 4096 mod 64 = y" "r div 64 mod 64 = z" "r mod 64 = u"
      unfolding r using digits4 [OF xyz(3,4,5,6,7,8)] by simp_all
    then have enc: "EncodeRune r
        = [char_of (240 + x), char_of (128 + y), char_of (128 + z), char_of (128 + u)]"
      using range by (simp add: EncodeRune_def)
    have "240 + x = a" "128 + y = b1" "128 + z = b2" "128 + u = b3"
      by (simp_all add: x_def y_def z_def u_def)
    then have "EncodeRune r = [c, s ! 0, s ! 1, s ! 2]" using enc ca c1 c2 c3 by simp
    moreover have "take 4 (c # s) = [c, s ! 0, s ! 1, s ! 2]"
    proof (cases s)
      case Nil
      then show ?thesis using four(3) by simp
    next
      case (Cons p s')
      show ?thesis
      proof (cases s')
        case Nil
        then show ?thesis using four(3) Cons by simp
      next
        case (Cons p' s'')
        then show ?thesis using four(3) \<open>s = p # s'\<close>
          by (cases s'') (simp_all add: numeral_3_eq_3 eval_nat_numeral)
      qed
    qed
    ultimately show ?thesis using four(13) by simp
  qed
qed

text \<open>
  Conversely, the encoding of a rune decodes to that rune, and the encoding of a rune
  that has none of its own (it is written as U+FFFD) decodes to U+FFFD. The lemmas
  come in pairs: what the decoder reads from bytes in the ranges of an encoding of
  one to four bytes, and that the encoder writes bytes in these ranges.
\<close>

lemma DecodeRuneInString_bytes1:
  assumes "of_char c0 = (a :: int)" "a < 0x80"
  shows "DecodeRuneInString (c0 # t) = (a, 1)"
  using assms by (simp add: DecodeRuneInString.simps(2))

lemma DecodeRuneInString_bytes2:
  assumes "of_char c0 = (a :: int)" "of_char c1 = (b :: int)"
    and "0xC2 \<le> a" "a < 0xE0" "0x80 \<le> b" "b \<le> 0xBF"
  shows "DecodeRuneInString (c0 # c1 # t) = (a mod 32 * 64 + b mod 64, 2)"
  using assms by (simp add: DecodeRuneInString.simps(2) Let_def)

lemma DecodeRuneInString_bytes3:
  assumes "of_char c0 = (a :: int)" "of_char c1 = (b :: int)" "of_char c2 = (c :: int)"
    and "0xE0 \<le> a" "a < 0xF0" "0x80 \<le> b" "b \<le> 0xBF" "0x80 \<le> c" "c \<le> 0xBF"
    and "a = 0xE0 \<longrightarrow> 0xA0 \<le> b" "a = 0xED \<longrightarrow> b \<le> 0x9F"
  shows "DecodeRuneInString (c0 # c1 # c2 # t)
           = (a mod 16 * 4096 + b mod 64 * 64 + c mod 64, 3)"
  using assms by (auto simp add: DecodeRuneInString.simps(2) Let_def)

lemma DecodeRuneInString_bytes4:
  assumes "of_char c0 = (a :: int)" "of_char c1 = (b :: int)" "of_char c2 = (c :: int)"
    "of_char c3 = (d :: int)"
    and "0xF0 \<le> a" "a \<le> 0xF4" "0x80 \<le> b" "b \<le> 0xBF" "0x80 \<le> c" "c \<le> 0xBF"
      "0x80 \<le> d" "d \<le> 0xBF"
    and "a = 0xF0 \<longrightarrow> 0x90 \<le> b" "a = 0xF4 \<longrightarrow> b \<le> 0x8F"
  shows "DecodeRuneInString (c0 # c1 # c2 # c3 # t)
           = (a mod 8 * 262144 + b mod 64 * 4096 + c mod 64 * 64 + d mod 64, 4)"
  using assms by (auto simp add: DecodeRuneInString.simps(2) Let_def)

lemma EncodeRune_bytes1:
  assumes "0 \<le> r" "r \<le> 0x7F"
  shows "EncodeRune r = [char_of r]"
  using assms by (simp only: EncodeRune_def simp_thms if_True)

lemma EncodeRune_bytes2:
  assumes "0x80 \<le> r" "r \<le> 0x7FF"
  shows "EncodeRune r = [char_of (0xC0 + r div 64), char_of (0x80 + r mod 64)]"
proof -
  have a: "\<not> r \<le> 0x7F" and b: "0 \<le> r" using assms by simp_all
  show ?thesis by (simp only: EncodeRune_def a b assms(2) simp_thms if_True if_False)
qed

lemma EncodeRune_bytes3:
  assumes "0x800 \<le> r" "r \<le> 0xFFFF" "\<not> (0xD800 \<le> r \<and> r \<le> 0xDFFF)"
  shows "EncodeRune r = [char_of (0xE0 + r div 4096), char_of (0x80 + r div 64 mod 64),
         char_of (0x80 + r mod 64)]"
proof -
  have a: "\<not> r \<le> 0x7F" "\<not> r \<le> 0x7FF" "\<not> r < 0" "\<not> 0x10FFFF < r"
    using assms by simp_all
  show ?thesis
    by (simp only: EncodeRune_def a assms(2,3) simp_thms if_True if_False)
qed

lemma EncodeRune_bytes4:
  assumes "0x10000 \<le> r" "r \<le> 0x10FFFF"
  shows "EncodeRune r = [char_of (0xF0 + r div 262144), char_of (0x80 + r div 4096 mod 64),
         char_of (0x80 + r div 64 mod 64), char_of (0x80 + r mod 64)]"
proof -
  have a: "\<not> r \<le> 0x7F" "\<not> r \<le> 0x7FF" "\<not> r < 0" "\<not> 0x10FFFF < r"
     "\<not> r \<le> 0xDFFF" "\<not> r \<le> 0xFFFF"
    using assms by simp_all
  show ?thesis
    by (simp only: EncodeRune_def a simp_thms if_True if_False)
qed

lemma EncodeRune_invalid:
  assumes "r < 0 \<or> 0x10FFFF < r \<or> (0xD800 \<le> r \<and> r \<le> 0xDFFF)"
  shows "EncodeRune r = [CHR 0xEF, CHR 0xBF, CHR 0xBD]"
proof -
  have a: "\<not> (0 \<le> r \<and> r \<le> 0x7F)" "\<not> (0 \<le> r \<and> r \<le> 0x7FF)"
    using assms by auto
  show ?thesis
    unfolding EncodeRune_def using a assms by (simp only: if_True if_False)
qed

lemma byte_of_char:
  "0 \<le> n \<Longrightarrow> n < 256 \<Longrightarrow> (of_char (char_of (n :: int)) :: int) = n"
  by simp

lemma DecodeRuneInString_EncodeRune1:
  assumes "0 \<le> r" "r \<le> 0x7F"
  shows "DecodeRuneInString (EncodeRune r @ t) = (r, 1)"
proof -
  have "(of_char (char_of r) :: int) = r" using assms by (intro byte_of_char) simp_all
  then show ?thesis
    unfolding EncodeRune_bytes1 [OF assms] using assms DecodeRuneInString_bytes1 [of "char_of r" r t] by simp
qed

lemma DecodeRuneInString_EncodeRune2:
  assumes "0x80 \<le> r" "r \<le> 0x7FF"
  shows "DecodeRuneInString (EncodeRune r @ t) = (r, 2)"
proof -
  define x y where "x = r div 64" and "y = r mod 64"
  have r: "r = x * 64 + y" unfolding x_def y_def by simp
  have xy: "2 \<le> x" "x < 32" "0 \<le> y" "y < 64"
    using assms unfolding x_def y_def by simp_all
  define a b where "a = 192 + x" and "b = 128 + y"
  have enc: "EncodeRune r = [char_of a, char_of b]"
    unfolding EncodeRune_bytes2 [OF assms] a_def b_def x_def y_def by simp
  have oa: "(of_char (char_of a) :: int) = a" and ob: "(of_char (char_of b) :: int) = b"
    using xy by (intro byte_of_char; simp add: a_def b_def)+
  have m: "a mod 32 = x" "b mod 64 = y"
    using xy lead2_byte [of a] cont_byte [of b] by (simp_all add: a_def b_def)
  have "DecodeRuneInString (char_of a # char_of b # t) = (a mod 32 * 64 + b mod 64, 2)"
    using xy by (intro DecodeRuneInString_bytes2 [OF oa ob]) (simp_all add: a_def b_def)
  then have "DecodeRuneInString (char_of a # char_of b # t) = (r, 2)"
    by (simp only: m r)
  then show ?thesis by (simp only: enc append.simps)
qed

lemma DecodeRuneInString_EncodeRune3:
  assumes "0x800 \<le> r" "r \<le> 0xFFFF" "\<not> (0xD800 \<le> r \<and> r \<le> 0xDFFF)"
  shows "DecodeRuneInString (EncodeRune r @ t) = (r, 3)"
proof -
  define x y z where "x = r div 4096" and "y = r div 64 mod 64" and "z = r mod 64"
  have "r = r div 64 * 64 + z" unfolding z_def by simp
  moreover have "r div 64 = r div 64 div 64 * 64 + y" unfolding y_def by simp
  moreover have "r div 64 div 64 = x" unfolding x_def by (simp add: div_mult2_eq [symmetric])
  ultimately have r: "r = x * 4096 + y * 64 + z" by simp
  have yz: "0 \<le> y" "y < 64" "0 \<le> z" "z < 64"
    unfolding y_def z_def by simp_all
  have x: "0 \<le> x" "x < 16" using assms unfolding x_def by simp_all
  have lo: "x = 0 \<longrightarrow> 32 \<le> y" using assms(1) yz unfolding r by auto
  have hi: "x = 13 \<longrightarrow> y < 32" using assms(3) yz unfolding r by auto
  define a b c where "a = 224 + x" and "b = 128 + y" and "c = 128 + z"
  have enc: "EncodeRune r = [char_of a, char_of b, char_of c]"
    unfolding EncodeRune_bytes3 [OF assms] a_def b_def c_def x_def y_def z_def by simp
  have oa: "(of_char (char_of a) :: int) = a" and ob: "(of_char (char_of b) :: int) = b"
    and oc: "(of_char (char_of c) :: int) = c"
    using x yz by (intro byte_of_char; simp add: a_def b_def c_def)+
  have m: "a mod 16 = x" "b mod 64 = y" "c mod 64 = z"
    using x yz lead3_byte [of a] cont_byte [of b] cont_byte [of c]
    by (simp_all add: a_def b_def c_def)
  have "DecodeRuneInString (char_of a # char_of b # char_of c # t)
          = (a mod 16 * 4096 + b mod 64 * 64 + c mod 64, 3)"
    using x yz lo hi by (intro DecodeRuneInString_bytes3 [OF oa ob oc]) (auto simp add: a_def b_def c_def)
  then have "DecodeRuneInString (char_of a # char_of b # char_of c # t) = (r, 3)"
    by (simp only: m r)
  then show ?thesis by (simp only: enc append.simps)
qed

lemma DecodeRuneInString_EncodeRune4:
  assumes "0x10000 \<le> r" "r \<le> 0x10FFFF"
  shows "DecodeRuneInString (EncodeRune r @ t) = (r, 4)"
proof -
  define x y z u where "x = r div 262144" and "y = r div 4096 mod 64"
    and "z = r div 64 mod 64" and "u = r mod 64"
  have "r = r div 64 * 64 + u" unfolding u_def by simp
  moreover have "r div 64 = r div 64 div 64 * 64 + z" unfolding z_def by simp
  moreover have "r div 64 div 64 = r div 4096" by (simp add: div_mult2_eq [symmetric])
  moreover have "r div 4096 = r div 4096 div 64 * 64 + y" unfolding y_def by simp
  moreover have "r div 4096 div 64 = x" unfolding x_def by (simp add: div_mult2_eq [symmetric])
  ultimately have r: "r = x * 262144 + y * 4096 + z * 64 + u" by simp
  have yz: "0 \<le> y" "y < 64" "0 \<le> z" "z < 64" "0 \<le> u" "u < 64"
    unfolding y_def z_def u_def by simp_all
  have x: "0 \<le> x" "x \<le> 4" using assms unfolding x_def by simp_all
  have lo: "x = 0 \<longrightarrow> 16 \<le> y" using assms(1) yz unfolding r by auto
  have hi: "x = 4 \<longrightarrow> y < 16" using assms(2) yz unfolding r by auto
  define a b c d where "a = 240 + x" and "b = 128 + y" and "c = 128 + z" and "d = 128 + u"
  have enc: "EncodeRune r = [char_of a, char_of b, char_of c, char_of d]"
    unfolding EncodeRune_bytes4 [OF assms] a_def b_def c_def d_def x_def y_def z_def u_def by simp
  have oa: "(of_char (char_of a) :: int) = a" and ob: "(of_char (char_of b) :: int) = b"
    and oc: "(of_char (char_of c) :: int) = c" and od: "(of_char (char_of d) :: int) = d"
    using x yz by (intro byte_of_char; simp add: a_def b_def c_def d_def)+
  have m: "a mod 8 = x" "b mod 64 = y" "c mod 64 = z" "d mod 64 = u"
    using x yz lead4_byte [of a] cont_byte [of b] cont_byte [of c] cont_byte [of d]
    by (simp_all add: a_def b_def c_def d_def)
  have "DecodeRuneInString (char_of a # char_of b # char_of c # char_of d # t)
          = (a mod 8 * 262144 + b mod 64 * 4096 + c mod 64 * 64 + d mod 64, 4)"
    using x yz lo hi by (intro DecodeRuneInString_bytes4 [OF oa ob oc od]) (auto simp add: a_def b_def c_def d_def)
  then have "DecodeRuneInString (char_of a # char_of b # char_of c # char_of d # t) = (r, 4)"
    by (simp only: m r)
  then show ?thesis by (simp only: enc append.simps)
qed

lemma DecodeRuneInString_EncodeRune_invalid:
  assumes "r < 0 \<or> 0x10FFFF < r \<or> (0xD800 \<le> r \<and> r \<le> 0xDFFF)"
  shows "DecodeRuneInString (EncodeRune r @ t) = (RuneError, 3)"
  unfolding EncodeRune_invalid [OF assms]
  by (simp add: DecodeRuneInString.simps(2) RuneError_def)

lemma DecodeRuneInString_EncodeRune:
  "\<exists>w. DecodeRuneInString (EncodeRune r @ t) = (if validRune r then r else RuneError, w)
       \<and> w = length (EncodeRune r) \<and> 0 < w"
proof -
  consider "r < 0 \<or> 0x10FFFF < r \<or> (0xD800 \<le> r \<and> r \<le> 0xDFFF)"
    | "0 \<le> r" "r \<le> 0x7F" | "0x80 \<le> r" "r \<le> 0x7FF"
    | "0x800 \<le> r" "r \<le> 0xFFFF" "\<not> (0xD800 \<le> r \<and> r \<le> 0xDFFF)"
    | "0x10000 \<le> r" "r \<le> 0x10FFFF"
    by linarith
  then show ?thesis
  proof cases
    case 1
    then have "\<not> validRune r" by (auto simp: validRune_def)
    then show ?thesis
      using DecodeRuneInString_EncodeRune_invalid [OF 1, of t] EncodeRune_invalid [OF 1] by simp
  next
    case 2
    then have "validRune r" by (simp add: validRune_def)
    then show ?thesis using DecodeRuneInString_EncodeRune1 [OF 2, of t] EncodeRune_bytes1 [OF 2] by simp
  next
    case 3
    then have "validRune r" by (simp add: validRune_def)
    then show ?thesis using DecodeRuneInString_EncodeRune2 [OF 3, of t] EncodeRune_bytes2 [OF 3] by simp
  next
    case 4
    then have "validRune r" by (simp add: validRune_def)
    then show ?thesis using DecodeRuneInString_EncodeRune3 [OF 4, of t] EncodeRune_bytes3 [OF 4] by simp
  next
    case 5
    then have "validRune r" by (simp add: validRune_def)
    then show ?thesis using DecodeRuneInString_EncodeRune4 [OF 5, of t] EncodeRune_bytes4 [OF 5] by simp
  qed
qed

lemma DecodeRuneInString_nonneg:
  assumes "DecodeRuneInString (c # s) = (r, w)"
  shows "0 \<le> r"
proof -
  have "(0::int) \<le> of_char c" by (simp add: of_char_def)
  then show ?thesis using DecodeRuneInString_cases [OF assms] by auto
qed

section \<open>The name deriver meets its specification\<close>

lemma strip_trailing_hyphens_Nil:
  "strip_trailing_hyphens s = [] \<longleftrightarrow> list_all (\<lambda>c. c = CHR ''-'') s"
  by (simp add: strip_trailing_hyphens_def dropWhile_eq_Nil_conv list_all_iff)

text \<open>
  The characters of a text in UTF-8 are its runes: the encodings of a list of
  characters, one after the other, decode to that list.
\<close>

lemma runes_utf8:
  "runes (concat (map EncodeRune rs)) = map (\<lambda>r. if validRune r then r else RuneError) rs"
proof (induction rs)
  case Nil
  show ?case by simp
next
  case (Cons r rs)
  let ?t = "concat (map EncodeRune rs)"
  obtain w where d: "DecodeRuneInString (EncodeRune r @ ?t) = (if validRune r then r else RuneError, w)"
    and w: "w = length (EncodeRune r)" "0 < w"
    using DecodeRuneInString_EncodeRune [of r ?t] by blast
  obtain c s where e: "EncodeRune r @ ?t = c # s"
    using w by (cases "EncodeRune r @ ?t") auto
  have "drop w (EncodeRune r @ ?t) = ?t" using w by simp
  then have "runes (EncodeRune r @ ?t) = (if validRune r then r else RuneError) # runes ?t"
    using d unfolding e by simp
  then show ?case using Cons.IH by simp
qed

text \<open>
  \<^verbatim>\<open>unicode.ToLower\<close> lower-cases a character as the specification says.
\<close>

lemma letters_table:
  "map_of (zip (map of_char upper_case_letters) (map of_char lower_case_letters)) (r :: int)
     = (if 0x41 \<le> r \<and> r \<le> 0x5A then Some (r + 0x20) else None)"
proof -
  have u: "map of_char upper_case_letters = [0x41 .. 0x5A :: int]"
    by (simp add: upper_case_letters_def upto_rec_numeral)
  have l: "map of_char lower_case_letters = map (\<lambda>x. x + 0x20) [0x41 .. 0x5A :: int]"
    by (simp add: lower_case_letters_def upto_rec_numeral)
  show ?thesis
    unfolding u l by (simp only: map_of_zip_map set_upto atLeastAtMost_iff)
qed

lemma unicode_ToLower_lower_case:
  "unicode_ToLower U r = lower_case U r"
  by (simp add: unicode_ToLower_def lower_case_def letters_table)

text \<open>
  \<^verbatim>\<open>strings.ToLower\<close> lower-cases the characters one by one, provided the table
  maps a rune above ASCII to a code point: \<^verbatim>\<open>strings.Map\<close> drops a rune whose image
  is negative. A rune that lower-cases to a rune without an encoding is written as
  U+FFFD; both are outside the class. The fast path for ASCII strings gives what
  \<^verbatim>\<open>strings.Map\<close> gives.
\<close>

lemma replace_outside_class_valid:
  "replace_outside_class (if validRune r then r else RuneError) = replace_outside_class r"
  by (auto simp: replace_outside_class_def validRune_def in_class_def RuneError_def)

lemma runes_EncodeRune:
  "map replace_outside_class (runes (EncodeRune r @ t))
     = replace_outside_class r # map replace_outside_class (runes t)"
proof -
  obtain w where d: "DecodeRuneInString (EncodeRune r @ t) = (if validRune r then r else RuneError, w)"
    and w: "w = length (EncodeRune r)" "0 < w"
    using DecodeRuneInString_EncodeRune [of r t] by blast
  obtain c s where e: "EncodeRune r @ t = c # s"
    using w by (cases "EncodeRune r @ t") auto
  have "drop w (EncodeRune r @ t) = t" using w by simp
  then have "runes (EncodeRune r @ t) = (if validRune r then r else RuneError) # runes t"
    using d unfolding e by simp
  then show ?thesis by (simp only: list.map replace_outside_class_valid)
qed

lemma runes_strings_Map:
  assumes table: "\<And>r. 0x80 \<le> r \<Longrightarrow> 0 \<le> To_LowerCase U r"
  shows "map replace_outside_class (runes (strings_Map (unicode_ToLower U) s))
           = map replace_outside_class (map (unicode_ToLower U) (runes s))"
proof (induction s rule: runes.induct)
  case 1
  show ?case by simp
next
  case (2 c s)
  obtain r w where d: "DecodeRuneInString (c # s) = (r, w)"
    by (cases "DecodeRuneInString (c # s)")
  have "0 \<le> r" using DecodeRuneInString_nonneg [OF d] .
  then have nn: "0 \<le> unicode_ToLower U r"
    using table [of r] by (auto simp: unicode_ToLower_def)
  have "strings_Map (unicode_ToLower U) (c # s)
          = EncodeRune (unicode_ToLower U r) @ strings_Map (unicode_ToLower U) (drop w (c # s))"
    using d nn by simp
  moreover have "runes (c # s) = r # runes (drop w (c # s))" using d by simp
  ultimately show ?case
    using 2 [OF d [symmetric]] by (simp only: runes_EncodeRune list.map)
qed

lemma strings_ToLower_Map:
  "strings_ToLower U s = strings_Map (unicode_ToLower U) s"
  by (simp add: strings_ToLower_def strings_Map_ASCII)

lemma deriveRecordName_spec_degenerate:
  "deriveRecordName_spec U d = ''acme-''
     \<longleftrightarrow> list_all (\<lambda>r. replace_outside_class (lower_case U r) = CHR ''-'') (runes d)"
  by (simp add: deriveRecordName_spec_def strip_trailing_hyphens_Nil list_all_iff)

text \<open>
  On a text in UTF-8 the reference definition reads the characters that were encoded,
  so that its result is given by the list of characters alone.
\<close>

lemma deriveRecordName_spec_utf8:
  assumes "list_all validRune cs"
  shows "deriveRecordName_spec U (concat (map EncodeRune cs))
           = ''acme-'' @ strip_trailing_hyphens (map (\<lambda>c. replace_outside_class (lower_case U c)) cs)"
proof -
  have "map (\<lambda>r. if validRune r then r else RuneError) cs = cs"
    using assms by (induction cs) simp_all
  then have "runes (concat (map EncodeRune cs)) = cs"
    by (simp only: runes_utf8)
  then show ?thesis by (simp add: deriveRecordName_spec_def comp_def)
qed

text \<open>The sample inputs, evaluated by the reference definition.\<close>

lemma sample_tables_code_points:
  "\<forall>r. 0x80 \<le> r \<longrightarrow> 0 \<le> To_LowerCase sample_tables r"
  by (simp add: sample_tables_def)

lemma runes_sampleLatin: "runes sampleLatin = [0xC9, 0x41, 0x2E, 0x43, 0x4F, 0x4D]"
  by (simp add: sampleLatin_def DecodeRuneInString.simps(2))

lemma runes_sampleKelvin: "runes sampleKelvin = [0x212A, 0x2E, 0x49, 0x4F]"
  by (simp add: sampleKelvin_def DecodeRuneInString.simps(2))

lemma runes_sampleInvalid: "runes sampleInvalid = [0xFFFD, 0x61, 0xFFFD]"
  by (simp add: sampleInvalid_def DecodeRuneInString.simps(2) RuneError_def)

lemma lower_case_samples:
  "lower_case sample_tables 0xC9 = 0xE9" "lower_case sample_tables 0x212A = 0x6B"
  "lower_case sample_tables 0xFFFD = 0xFFFD"
  "lower_case U 0x41 = 0x61" "lower_case U 0x2E = 0x2E" "lower_case U 0x43 = 0x63"
  "lower_case U 0x4F = 0x6F" "lower_case U 0x4D = 0x6D" "lower_case U 0x49 = 0x69"
  "lower_case U 0x61 = 0x61"
  by (simp_all add: lower_case_def letters_table sample_tables_def)

lemma deriveRecordName_spec_sampleLatin:
  "deriveRecordName_spec sample_tables sampleLatin = ''acme--a-com''"
  by (simp only: deriveRecordName_spec_def runes_sampleLatin list.map lower_case_samples)
     (simp add: replace_outside_class_def in_class_def strip_trailing_hyphens_def char_of_def)

lemma deriveRecordName_spec_sampleKelvin:
  "deriveRecordName_spec sample_tables sampleKelvin = ''acme-k-io''"
  by (simp only: deriveRecordName_spec_def runes_sampleKelvin list.map lower_case_samples)
     (simp add: replace_outside_class_def in_class_def strip_trailing_hyphens_def char_of_def)

lemma deriveRecordName_spec_sampleInvalid:
  "deriveRecordName_spec sample_tables sampleInvalid = ''acme--a''"
  by (simp only: deriveRecordName_spec_def runes_sampleInvalid list.map lower_case_samples)
     (simp add: replace_outside_class_def in_class_def strip_trailing_hyphens_def char_of_def)

text \<open>
  Claim C2. For every input string \<open>d\<close>, \<^verbatim>\<open>getRecordName\<close> equals the reference
  definition of the specification: lower-case the characters, replace every character
  outside \<^verbatim>\<open>[a-z0-9-]\<close> with a hyphen, strip all trailing hyphens, prepend \<^verbatim>\<open>acme-\<close>.
  This holds for every Unicode table that maps a rune above ASCII to a code point,
  as the tables of Go do. For every table, it is a total function whose result is
  never empty, and \<^verbatim>\<open>getRecordName("Example.COM.") = "acme-example-com"\<close>. The result
  is the prefix alone for the empty input, and exactly for the degenerate inputs,
  those whose every character is, once lower-cased, a hyphen or replaced by one.
\<close>

theorem getRecordName_refines_spec:
  "((\<forall>r. 0x80 \<le> r \<longrightarrow> 0 \<le> To_LowerCase U r) \<longrightarrow>
      getRecordName U d = deriveRecordName_spec U d
      \<and> (getRecordName U d = ''acme-''
           \<longleftrightarrow> list_all (\<lambda>r. replace_outside_class (lower_case U r) = CHR ''-'') (runes d)))
   \<and> getRecordName U d \<noteq> []
   \<and> getRecordName U [] = ''acme-''
   \<and> getRecordName U ''Example.COM.'' = ''acme-example-com''"
proof -
  have eq: "getRecordName U d = deriveRecordName_spec U d"
    if "\<forall>r. 0x80 \<le> r \<longrightarrow> 0 \<le> To_LowerCase U r"
  proof -
    have "unicode_ToLower U = lower_case U"
      by (rule ext) (rule unicode_ToLower_lower_case)
    moreover have "map replace_outside_class (runes (strings_Map (unicode_ToLower U) d))
        = map replace_outside_class (map (unicode_ToLower U) (runes d))"
      using that by (intro runes_strings_Map) simp
    ultimately have "map replace_outside_class (runes (strings_ToLower U d))
        = map replace_outside_class (map (lower_case U) (runes d))"
      by (simp only: strings_ToLower_Map)
    then show ?thesis
      by (simp add: getRecordName_def deriveRecordName_spec_def Let_def
          ReplaceAllString_runes trimRightByte_strip strip_trailing_hyphens_def)
  qed
  have ne: "getRecordName U d \<noteq> []"
    by (simp add: getRecordName_def Let_def)
  have lower: "strings_ToLower U ''Example.COM.'' = ''example.com.''"
    by (simp add: strings_ToLower_def isASCII_def lowerByte_def char_of_def)
  have repl: "ReplaceAllString ''example.com.'' ''-'' = ''example-com-''"
    by (simp add: DecodeRuneInString.simps(2) in_class_def)
  have trim: "trimRightByte ''example-com-'' (CHR ''-'') = ''example-com''"
    by (simp add: trimRightByte_strip)
  have ex: "getRecordName U ''Example.COM.'' = ''acme-example-com''"
    by (simp only: getRecordName_def Let_def lower repl trim) simp
  have deg: "getRecordName U [] = ''acme-''"
    by (simp add: getRecordName_def Let_def strings_ToLower_def isASCII_def trimRightByte_strip)
  have degs: "getRecordName U d = ''acme-''
        \<longleftrightarrow> list_all (\<lambda>r. replace_outside_class (lower_case U r) = CHR ''-'') (runes d)"
    if "\<forall>r. 0x80 \<le> r \<longrightarrow> 0 \<le> To_LowerCase U r"
    by (simp only: eq [OF that] deriveRecordName_spec_degenerate)
  show ?thesis
  proof (intro conjI impI)
    assume t: "\<forall>r. 0x80 \<le> r \<longrightarrow> 0 \<le> To_LowerCase U r"
    show "getRecordName U d = deriveRecordName_spec U d" by (rule eq [OF t])
    show "getRecordName U d = ''acme-''
        \<longleftrightarrow> list_all (\<lambda>r. replace_outside_class (lower_case U r) = CHR ''-'') (runes d)"
      by (rule degs [OF t])
  qed (rule ne deg ex)+
qed

text \<open>
  The theorem at the three sample inputs: a capital letter above ASCII is lower-cased
  to a letter outside the class and becomes one hyphen, the Kelvin sign is
  lower-cased to the letter \<^verbatim>\<open>k\<close> of the class, and a byte outside every encoding
  becomes one hyphen.
\<close>

theorem getRecordName_refines_spec_witness:
  "getRecordName sample_tables sampleLatin = ''acme--a-com''
   \<and> getRecordName sample_tables sampleKelvin = ''acme-k-io''
   \<and> getRecordName sample_tables sampleInvalid = ''acme--a''"
proof -
  note refines = getRecordName_refines_spec [of sample_tables, THEN conjunct1, THEN mp,
      OF sample_tables_code_points, THEN conjunct1]
  show ?thesis
    by (simp only: refines deriveRecordName_spec_sampleLatin
        deriveRecordName_spec_sampleKelvin deriveRecordName_spec_sampleInvalid simp_thms)
qed

section \<open>Properties of the config loader\<close>

subsection \<open>When storing succeeds\<close>

lemma saveError_None [simp]: "saveError e sv \<noteq> None"
  by (simp add: saveError_def split: option.splits)








subsection \<open>The errors of storing\<close>








text \<open>The outcome of \<^verbatim>\<open>loadConfig\<close> on a present input, by the value the input denotes.\<close>

lemma loadConfig_syntax_error:
  "decodeJSON raw = None \<Longrightarrow>
   loadConfig U (Some raw)
     = (\<lparr>Labels = Map.empty, Extra = Map.empty\<rparr>, Some (ConfigDecodeError SyntaxError))"
  by (simp add: loadConfig_def Unmarshal_def)



subsection \<open>Stored mappings\<close>






subsection \<open>Sample inputs\<close>



lemma decodeJSON_open_brace: "decodeJSON ''{'' = None"
  by (simp add: decodeJSON_def isSpace_def isDigit_def emit_def scanToken_def beginValue_def
      endValue_def pushParseState_def maxNestingDepth_def closeObject_def)




subsection \<open>The contract of the config loader\<close>






section \<open>Properties of the reconciler\<close>

subsection \<open>Facts about the solver\<close>

lemma HasSuffix_dot:
  "strings_HasSuffix d ''.'' \<longleftrightarrow> d \<noteq> [] \<and> last d = CHR ''.''"
proof (cases d rule: rev_cases)
  case Nil
  then show ?thesis by (simp add: strings_HasSuffix_def)
next
  case (snoc ys y)
  then show ?thesis by (auto simp: strings_HasSuffix_def)
qed

lemma trailing_dot:
  "(if strings_HasSuffix d ''.'' then take (length d - 1) d else d) = stripTrailingDot d"
  by (simp add: HasSuffix_dot stripTrailingDot_def butlast_conv_take)

lemma desiredBody_frame [simp]:
  "UID (desiredBody cfg ch r) = UID r"
  "Name (desiredBody cfg ch r) = Name r"
  "Other (desiredBody cfg ch r) = Other r"
  "Namespace (desiredBody cfg ch r) = ResourceNamespace ch"
  by (simp_all add: desiredBody_def)

lemma desiredBody_idem [simp]:
  "desiredBody cfg ch (desiredBody cfg ch r) = desiredBody cfg ch r"
  by (simp add: desiredBody_def)

lemma desiredBody_UID [simp]:
  "desiredBody cfg ch (r\<lparr>UID := u\<rparr>) = (desiredBody cfg ch r)\<lparr>UID := u\<rparr>"
  by (simp add: desiredBody_def)

lemma Present_config_error:
  "loadConfig U (Config ch) = (cfg, Some e) \<Longrightarrow> Present U c ch w = (Some e, w)"
  by (simp add: Present_def)

lemma Present_fetched:
  assumes "loadConfig U (Config ch) = (cfg, None)"
    and "client_Get (client c) (derivedIdentity U ch)
           (zeroRecord\<lparr>Name := getRecordName U (ResolvedFQDN ch)\<rparr>) w = ((err, fetched), w1)"
  shows "Present U c ch w =
     (if IgnoreNotFound err \<noteq> None then (err, w1)
      else if UID fetched = [] then client_Create (client c) (desiredBody cfg ch fetched) w1
      else client_Update (client c) (desiredBody cfg ch fetched) w1)"
proof -
  have body: "(if strings_HasSuffix (ResolvedFQDN ch) ''.''
        then fetched\<lparr>Namespace := ResourceNamespace ch, ObjectMeta_Labels := Labels cfg,
               Spec_Name := ResolvedFQDN ch, Spec_Type := ''TXT'', Spec_Value := Key ch,
               Spec_Extra := Extra cfg,
               Spec_Name := take (length (ResolvedFQDN ch) - 1) (ResolvedFQDN ch)\<rparr>
        else fetched\<lparr>Namespace := ResourceNamespace ch, ObjectMeta_Labels := Labels cfg,
               Spec_Name := ResolvedFQDN ch, Spec_Type := ''TXT'', Spec_Value := Key ch,
               Spec_Extra := Extra cfg\<rparr>)
      = desiredBody cfg ch fetched"
    using trailing_dot [of "ResolvedFQDN ch"]
    by (simp add: desiredBody_def split: if_splits)
  show ?thesis
    using assms
    by (simp add: Present_def Let_def derivedIdentity_def body del: One_nat_def)
qed

lemma CleanUp_fetched:
  assumes "client_Get (client c) (derivedIdentity U ch)
           (zeroRecord\<lparr>Name := getRecordName U (ResolvedFQDN ch)\<rparr>) w = ((err, fetched), w1)"
  shows "CleanUp U c ch w =
     (if err \<noteq> None then (IgnoreNotFound err, w1) else client_Delete (client c) fetched w1)"
  using assms by (simp add: CleanUp_def Let_def derivedIdentity_def)

subsection \<open>Facts about the in-memory store\<close>

lemma lookup_None: "lookup k rs = None \<longleftrightarrow> k \<notin> set (map objectKey rs)"
  by (auto simp: lookup_def find_None_iff)

lemma lookup_Some_key: "lookup k rs = Some r \<Longrightarrow> objectKey r = k \<and> r \<in> set rs"
  by (auto simp: lookup_def find_Some_iff)

lemma resourcesAt_None: "lookup k rs = None \<longleftrightarrow> resourcesAt k rs = []"
  by (auto simp: lookup_def resourcesAt_def find_None_iff filter_empty_conv)

lemma lookup_distinct:
  "distinct (map objectKey rs) \<Longrightarrow> r \<in> set rs \<Longrightarrow> lookup (objectKey r) rs = Some r"
  by (induction rs) (auto simp: lookup_def)

lemma resourcesAt_distinct:
  "distinct (map objectKey rs) \<Longrightarrow> lookup k rs = Some r \<Longrightarrow> resourcesAt k rs = [r]"
proof (induction rs)
  case Nil
  then show ?case by (simp add: lookup_def)
next
  case (Cons x rs)
  show ?case
  proof (cases "objectKey x = k")
    case True
    then have "x = r" using Cons.prems(2) by (simp add: lookup_def)
    moreover have "k \<notin> set (map objectKey rs)" using Cons.prems(1) True by auto
    then have "resourcesAt k rs = []"
      by (auto simp: resourcesAt_def filter_empty_conv)
    ultimately show ?thesis using True by (simp add: resourcesAt_def)
  next
    case False
    then show ?thesis using Cons by (simp add: lookup_def resourcesAt_def)
  qed
qed

lemma replace_same:
  "distinct (map objectKey rs) \<Longrightarrow> lookup k rs = Some r \<Longrightarrow>
   map (\<lambda>x. if objectKey x = k then r else x) rs = rs"
proof -
  assume d: "distinct (map objectKey rs)" and l: "lookup k rs = Some r"
  have "\<And>x. x \<in> set rs \<Longrightarrow> objectKey x = k \<Longrightarrow> x = r"
  proof -
    fix x assume "x \<in> set rs" "objectKey x = k"
    then have "lookup k rs = Some x" using lookup_distinct [OF d] by auto
    then show "x = r" using l by simp
  qed
  then show ?thesis by (simp add: map_idI)
qed

lemma replace_keys:
  "objectKey obj = k \<Longrightarrow>
   map objectKey (map (\<lambda>x. if objectKey x = k then obj else x) rs) = map objectKey rs"
  by (induction rs) auto

lemma lookup_replace:
  "objectKey obj = k \<Longrightarrow> lookup k rs = Some r \<Longrightarrow>
   lookup k (map (\<lambda>x. if objectKey x = k then obj else x) rs) = Some obj"
  by (induction rs) (auto simp: lookup_def split: if_splits)

lemma resourcesAt_removed:
  "resourcesAt k (filter (\<lambda>x. objectKey x \<noteq> k) rs) = []"
  by (auto simp: resourcesAt_def filter_empty_conv)

lemma quiet_Suc:
  "quiet (Suc n) s \<longleftrightarrow> nextFault s = None \<and> quiet n (begun s)"
  by (cases "faults s") (simp_all add: quiet_def nextFault_def begun_def)

lemma quiet_update [simp]:
  "quiet n (s\<lparr>objects := rs\<rparr>) = quiet n s"
  "quiet n (s\<lparr>nextUID := u\<rparr>) = quiet n s"
  by (simp_all add: quiet_def)

lemma begun_fields [simp]:
  "objects (begun s) = objects s" "nextUID (begun s) = nextUID s"
  by (simp_all add: begun_def)

lemma wellFormed_begun [simp]: "wellFormed (begun s) = wellFormed s"
  by (simp add: wellFormed_def)

lemma client_mem [simp]:
  "Get (client memSolver) = memGet" "Create (client memSolver) = memCreate"
  "Update (client memSolver) = memUpdate" "Delete (client memSolver) = memDelete"
  by (simp_all add: memSolver_def memClient_def)

text \<open>The four calls on the in-memory store, by their outcome.\<close>

lemma memGet_cases:
  assumes "client_Get (client memSolver) key obj w = ((err, fetched), w1)"
  shows "calls w1 = calls w @ [GetCall key] \<and> store w1 = begun (store w)
     \<and> ((\<exists>msg. nextFault (store w) = Some msg \<and> err = Some (StoreFailure msg))
        \<or> (nextFault (store w) = None \<and> lookup key (objects (store w)) = None
            \<and> err = Some NotFound \<and> fetched = obj)
        \<or> (nextFault (store w) = None \<and> lookup key (objects (store w)) = Some fetched
            \<and> err = None))"
  using assms
  by (auto simp: client_Get_def memGet_def split: option.splits)

lemma memCreate_ok:
  assumes "client_Create (client memSolver) obj w = (None, w1)"
  shows "calls w1 = calls w @ [CreateCall obj]
     \<and> lookup (objectKey obj) (objects (store w)) = None
     \<and> objects (store w1) = objects (store w) @ [obj\<lparr>UID := freshUID (nextUID (store w))\<rparr>]
     \<and> nextUID (store w1) = Suc (nextUID (store w))"
  using assms
  by (auto simp: client_Create_def memCreate_def split: option.splits)

lemma memUpdate_ok:
  assumes "client_Update (client memSolver) obj w = (None, w1)"
  shows "calls w1 = calls w @ [UpdateCall obj]
     \<and> (\<exists>r. lookup (objectKey obj) (objects (store w)) = Some r \<and> UID r = UID obj)
     \<and> objects (store w1)
         = map (\<lambda>x. if objectKey x = objectKey obj then obj else x) (objects (store w))
     \<and> nextUID (store w1) = nextUID (store w)"
  using assms
  by (auto simp: client_Update_def memUpdate_def split: option.splits if_splits)

lemma memDelete_ok:
  assumes "client_Delete (client memSolver) obj w = (None, w1)"
  shows "calls w1 = calls w @ [DeleteCall obj]
     \<and> objects (store w1) = filter (\<lambda>x. objectKey x \<noteq> objectKey obj) (objects (store w))
     \<and> nextUID (store w1) = nextUID (store w)"
  using assms
  by (auto simp: client_Delete_def memDelete_def split: option.splits)

lemma freshUID_nonempty [simp]: "freshUID n \<noteq> []"
  by (simp add: freshUID_def)

subsection \<open>The sample challenge\<close>

lemma getRecordName_sample:
  "getRecordName U ''_acme-challenge.foo.example.com.'' = ''acme--acme-challenge-foo-example-com''"
proof -
  have lower: "strings_ToLower U ''_acme-challenge.foo.example.com.''
      = ''_acme-challenge.foo.example.com.''"
    by (simp add: strings_ToLower_def isASCII_def lowerByte_def)
  have repl: "ReplaceAllString ''_acme-challenge.foo.example.com.'' ''-''
      = ''-acme-challenge-foo-example-com-''"
    by (simp add: DecodeRuneInString.simps(2) in_class_def)
  have trim: "trimRightByte ''-acme-challenge-foo-example-com-'' (CHR ''-'')
      = ''-acme-challenge-foo-example-com''"
    by (simp add: trimRightByte_strip)
  show ?thesis
    by (simp only: getRecordName_def Let_def lower repl trim) simp
qed

lemma derivedIdentity_sample [simp]:
  "derivedIdentity U sampleChallenge = (''default'', ''acme--acme-challenge-foo-example-com'')"
  "derivedIdentity U brokenChallenge = (''default'', ''acme--acme-challenge-foo-example-com'')"
  by (simp_all add: derivedIdentity_def sampleChallenge_def brokenChallenge_def
      getRecordName_sample)

lemma client_calls:
  "calls (snd (client_Get cl key obj w)) = calls w @ [GetCall key]"
  "calls (snd (client_Create cl obj w)) = calls w @ [CreateCall obj]"
  "calls (snd (client_Update cl obj w)) = calls w @ [UpdateCall obj]"
  "calls (snd (client_Delete cl obj w)) = calls w @ [DeleteCall obj]"
  by (simp_all add: client_Get_def client_Create_def client_Update_def client_Delete_def
      split: prod.splits)

subsection \<open>Failure to decode the configuration\<close>

text \<open>
  Claim C6. For every challenge whose \<open>Config\<close> is present and does not decode, and
  for every client, \<^verbatim>\<open>Present\<close> returns the \<^verbatim>\<open>ConfigDecodeError\<close> of \<^verbatim>\<open>loadConfig\<close>
  and the world is exactly as before: no client call is made (no get, create or
  update) and the store is unchanged.
\<close>

theorem Present_decode_error_atomic:
  assumes "Config ch = Some raw" and "snd (loadConfig U (Some raw)) = Some e"
  shows "Present U c ch w = (Some e, w) \<and> (\<exists>je. e = ConfigDecodeError je)"
proof -
  obtain cfg where "loadConfig U (Config ch) = (cfg, Some e)"
    using assms by (cases "loadConfig U (Some raw)") simp
  then have "Present U c ch w = (Some e, w)" by (rule Present_config_error)
  moreover have "\<exists>je. e = ConfigDecodeError je"
    using assms(2) by (auto simp: loadConfig_def split: prod.splits option.splits)
  ultimately show ?thesis ..
qed

theorem Present_decode_error_atomic_witness:
  "Present ascii_tables memSolver brokenChallenge staleWorld
     = (Some (ConfigDecodeError SyntaxError), staleWorld)"
proof -
  have "snd (loadConfig ascii_tables (Some ''{'')) = Some (ConfigDecodeError SyntaxError)"
    by (simp add: loadConfig_syntax_error decodeJSON_open_brace)
  from Present_decode_error_atomic [OF _ this, of brokenChallenge memSolver staleWorld]
  show ?thesis by (simp add: brokenChallenge_def)
qed

subsection \<open>The branch between create and update\<close>

text \<open>
  Claim C8. For every challenge whose configuration decodes and every client, once
  the fetch has not failed (not-found is not a failure) \<^verbatim>\<open>Present\<close> branches only on
  the presence token of the object the fetch left: when it is empty \<^verbatim>\<open>Present\<close> is
  one call of create and the run makes no update; when it is not, \<^verbatim>\<open>Present\<close> is one
  call of update and the run makes no create. The body written is the fetched object
  with namespace, labels, record name, type, value and extra overwritten; its
  presence token, its name and every other field are those of the fetched object,
  and so is its identity when the fetched object is the one at the derived identity.
\<close>

theorem Present_branches_on_presence:
  assumes "loadConfig U (Config ch) = (cfg, None)"
    and "client_Get (client c) (derivedIdentity U ch)
           (zeroRecord\<lparr>Name := getRecordName U (ResolvedFQDN ch)\<rparr>) w = ((err, fetched), w1)"
    and "IgnoreNotFound err = None"
  shows "(UID fetched = [] \<longrightarrow>
            Present U c ch w = client_Create (client c) (desiredBody cfg ch fetched) w1
            \<and> calls (snd (Present U c ch w))
                = calls w @ [GetCall (derivedIdentity U ch), CreateCall (desiredBody cfg ch fetched)])
       \<and> (UID fetched \<noteq> [] \<longrightarrow>
            Present U c ch w = client_Update (client c) (desiredBody cfg ch fetched) w1
            \<and> calls (snd (Present U c ch w))
                = calls w @ [GetCall (derivedIdentity U ch), UpdateCall (desiredBody cfg ch fetched)])
       \<and> desiredBody cfg ch fetched
           = fetched\<lparr>Namespace := ResourceNamespace ch, ObjectMeta_Labels := Labels cfg,
               Spec_Name := stripTrailingDot (ResolvedFQDN ch), Spec_Type := ''TXT'',
               Spec_Value := Key ch, Spec_Extra := Extra cfg\<rparr>
       \<and> UID (desiredBody cfg ch fetched) = UID fetched
       \<and> Name (desiredBody cfg ch fetched) = Name fetched
       \<and> Other (desiredBody cfg ch fetched) = Other fetched
       \<and> (objectKey fetched = derivedIdentity U ch
            \<longrightarrow> objectKey (desiredBody cfg ch fetched) = objectKey fetched)"
proof -
  have w1: "calls w1 = calls w @ [GetCall (derivedIdentity U ch)]"
    using arg_cong [OF assms(2), of "\<lambda>x. calls (snd x)"] by (simp add: client_calls)
  have p: "Present U c ch w =
     (if UID fetched = [] then client_Create (client c) (desiredBody cfg ch fetched) w1
      else client_Update (client c) (desiredBody cfg ch fetched) w1)"
    using Present_fetched [OF assms(1,2)] assms(3) by simp
  have key: "objectKey fetched = derivedIdentity U ch
      \<longrightarrow> objectKey (desiredBody cfg ch fetched) = objectKey fetched"
    by (auto simp: objectKey_def derivedIdentity_def)
  show ?thesis
    using p w1 key by (simp add: client_calls desiredBody_def)
qed

theorem Present_branches_on_presence_witness:
  "calls (snd (Present ascii_tables memSolver sampleChallenge emptyWorld))
     = [GetCall (''default'', ''acme--acme-challenge-foo-example-com''),
        CreateCall (staleRecord\<lparr>UID := [], Spec_Value := ''abc123''\<rparr>)]
   \<and> calls (snd (Present ascii_tables memSolver sampleChallenge staleWorld))
     = [GetCall (''default'', ''acme--acme-challenge-foo-example-com''),
        UpdateCall (staleRecord\<lparr>Spec_Value := ''abc123''\<rparr>)]"
proof -
  let ?zero = "zeroRecord\<lparr>Name := getRecordName ascii_tables (ResolvedFQDN sampleChallenge)\<rparr>"
  have cfg: "loadConfig ascii_tables (Config sampleChallenge)
      = (\<lparr>Labels = Map.empty, Extra = Map.empty\<rparr>, None)"
    by (simp add: sampleChallenge_def loadConfig_def)
  have g1: "client_Get (client memSolver) (derivedIdentity ascii_tables sampleChallenge) ?zero emptyWorld
      = ((Some NotFound, ?zero),
         \<lparr>calls = [GetCall (derivedIdentity ascii_tables sampleChallenge)], store = begun emptyStore\<rparr>)"
    by (simp add: client_Get_def memGet_def emptyWorld_def emptyStore_def nextFault_def lookup_def)
  have g2: "client_Get (client memSolver) (derivedIdentity ascii_tables sampleChallenge) ?zero staleWorld
      = ((None, staleRecord),
         \<lparr>calls = [GetCall (derivedIdentity ascii_tables sampleChallenge)], store = begun (store staleWorld)\<rparr>)"
    by (simp add: client_Get_def memGet_def staleWorld_def nextFault_def lookup_def objectKey_def
        staleRecord_def)
  have b1: "desiredBody \<lparr>Labels = Map.empty, Extra = Map.empty\<rparr> sampleChallenge ?zero
      = staleRecord\<lparr>UID := [], Spec_Value := ''abc123''\<rparr>"
    by (simp add: desiredBody_def sampleChallenge_def zeroRecord_def staleRecord_def
        stripTrailingDot_def getRecordName_sample)
  have b2: "desiredBody \<lparr>Labels = Map.empty, Extra = Map.empty\<rparr> sampleChallenge staleRecord
      = staleRecord\<lparr>Spec_Value := ''abc123''\<rparr>"
    by (simp add: desiredBody_def sampleChallenge_def staleRecord_def stripTrailingDot_def)
  have u1: "UID ?zero = []" by (simp add: zeroRecord_def)
  have u2: "UID staleRecord \<noteq> []" by (simp add: staleRecord_def)
  have i1: "IgnoreNotFound (Some NotFound) = None" and i2: "IgnoreNotFound None = None"
    by (simp_all add: IgnoreNotFound_def)
  note create = Present_branches_on_presence [OF cfg g1 i1, THEN conjunct1, rule_format, OF u1,
      THEN conjunct2]
  note update = Present_branches_on_presence [OF cfg g2 i2, THEN conjunct2, THEN conjunct1,
      rule_format, OF u2, THEN conjunct2]
  from create
  have "calls (snd (Present ascii_tables memSolver sampleChallenge emptyWorld))
     = [GetCall (''default'', ''acme--acme-challenge-foo-example-com''),
        CreateCall (staleRecord\<lparr>UID := [], Spec_Value := ''abc123''\<rparr>)]"
    by (simp add: b1 emptyWorld_def)
  moreover from update
  have "calls (snd (Present ascii_tables memSolver sampleChallenge staleWorld))
     = [GetCall (''default'', ''acme--acme-challenge-foo-example-com''),
        UpdateCall (staleRecord\<lparr>Spec_Value := ''abc123''\<rparr>)]"
    by (simp add: b2 staleWorld_def)
  ultimately show ?thesis ..
qed

subsection \<open>CleanUp on the in-memory store\<close>

lemma zeroRecord_key [simp]:
  "objectKey (zeroRecord\<lparr>Name := n\<rparr>) = ([], n)"
  by (simp add: objectKey_def zeroRecord_def)

text \<open>
  Claim C4. For every challenge and every store that holds no resource at the
  derived identity, \<^verbatim>\<open>CleanUp\<close> (its fetch not being made to fail by the
  environment) returns success: the fetch reports not-found, which is not an error.
  The run makes the one get and no delete, and the resources of the store are
  unchanged.
\<close>

theorem CleanUp_absent_is_noop:
  assumes "resourcesAt (derivedIdentity U ch) (objects (store w)) = []"
    and "nextFault (store w) = None"
  shows "fst (CleanUp U memSolver ch w) = None
       \<and> calls (snd (CleanUp U memSolver ch w)) = calls w @ [GetCall (derivedIdentity U ch)]
       \<and> objects (store (snd (CleanUp U memSolver ch w))) = objects (store w)
       \<and> nextUID (store (snd (CleanUp U memSolver ch w))) = nextUID (store w)"
proof -
  let ?zero = "zeroRecord\<lparr>Name := getRecordName U (ResolvedFQDN ch)\<rparr>"
  have none: "lookup (derivedIdentity U ch) (objects (store w)) = None"
    using assms(1) by (simp add: resourcesAt_None)
  have get: "client_Get (client memSolver) (derivedIdentity U ch) ?zero w
      = ((Some NotFound, ?zero),
         \<lparr>calls = calls w @ [GetCall (derivedIdentity U ch)], store = begun (store w)\<rparr>)"
    using none assms(2) by (simp add: client_Get_def memGet_def)
  show ?thesis
    by (simp add: CleanUp_fetched [OF get] IgnoreNotFound_def)
qed

theorem CleanUp_absent_is_noop_witness:
  "fst (CleanUp ascii_tables memSolver sampleChallenge emptyWorld) = None
   \<and> calls (snd (CleanUp ascii_tables memSolver sampleChallenge emptyWorld))
       = [GetCall (''default'', ''acme--acme-challenge-foo-example-com'')]
   \<and> objects (store (snd (CleanUp ascii_tables memSolver sampleChallenge emptyWorld))) = []"
proof -
  have a: "resourcesAt (derivedIdentity ascii_tables sampleChallenge) (objects (store emptyWorld)) = []"
    by (simp add: resourcesAt_def emptyWorld_def emptyStore_def)
  have b: "nextFault (store emptyWorld) = None"
    by (simp add: nextFault_def emptyWorld_def emptyStore_def)
  from CleanUp_absent_is_noop [OF a b]
  show ?thesis by (simp add: emptyWorld_def emptyStore_def)
qed

text \<open>
  Claim C9. For every challenge and every store that holds a resource at the derived
  identity, whatever its record value, \<^verbatim>\<open>CleanUp\<close> (its two calls not being made to
  fail by the environment) fetches the resource, deletes it and returns success:
  the stored record value is never compared with the token of the challenge.
\<close>

theorem CleanUp_deletes_whatever_value:
  assumes "lookup (derivedIdentity U ch) (objects (store w)) = Some r"
    and "Spec_Value r = v"
    and "quiet 2 (store w)"
  shows "fst (CleanUp U memSolver ch w) = None
       \<and> calls (snd (CleanUp U memSolver ch w))
           = calls w @ [GetCall (derivedIdentity U ch), DeleteCall r]
       \<and> objects (store (snd (CleanUp U memSolver ch w)))
           = filter (\<lambda>x. objectKey x \<noteq> derivedIdentity U ch) (objects (store w))
       \<and> resourcesAt (derivedIdentity U ch) (objects (store (snd (CleanUp U memSolver ch w)))) = []"
proof -
  let ?zero = "zeroRecord\<lparr>Name := getRecordName U (ResolvedFQDN ch)\<rparr>"
  let ?w1 = "\<lparr>calls = calls w @ [GetCall (derivedIdentity U ch)], store = begun (store w)\<rparr>"
  have q: "nextFault (store w) = None" "nextFault (begun (store w)) = None"
    using assms(3) by (simp_all add: numeral_2_eq_2 quiet_Suc)
  have key: "objectKey r = derivedIdentity U ch"
    using lookup_Some_key [OF assms(1)] by simp
  have get: "client_Get (client memSolver) (derivedIdentity U ch) ?zero w = ((None, r), ?w1)"
    using assms(1) q(1) by (simp add: client_Get_def memGet_def)
  have del: "client_Delete (client memSolver) r ?w1
      = (None, \<lparr>calls = calls w @ [GetCall (derivedIdentity U ch), DeleteCall r],
                store = (begun (begun (store w)))
                  \<lparr>objects := filter (\<lambda>x. objectKey x \<noteq> derivedIdentity U ch) (objects (store w))\<rparr>\<rparr>)"
    using assms(1) q(2) key by (simp add: client_Delete_def memDelete_def)
  show ?thesis
    by (simp add: CleanUp_fetched [OF get] del resourcesAt_removed)
qed

theorem CleanUp_deletes_whatever_value_witness:
  "Spec_Value staleRecord \<noteq> Key sampleChallenge
   \<and> fst (CleanUp ascii_tables memSolver sampleChallenge staleWorld) = None
   \<and> objects (store (snd (CleanUp ascii_tables memSolver sampleChallenge staleWorld))) = []"
proof -
  have a: "lookup (derivedIdentity ascii_tables sampleChallenge) (objects (store staleWorld))
      = Some staleRecord"
    by (simp add: lookup_def staleWorld_def objectKey_def staleRecord_def)
  have b: "quiet 2 (store staleWorld)"
    by (simp add: quiet_def staleWorld_def)
  have c: "objectKey staleRecord = (''default'', ''acme--acme-challenge-foo-example-com'')"
    by (simp add: objectKey_def staleRecord_def)
  have d: "Spec_Value staleRecord \<noteq> Key sampleChallenge"
    by (simp add: staleRecord_def sampleChallenge_def)
  from CleanUp_deletes_whatever_value [OF a refl b] c d
  show ?thesis by (simp add: staleWorld_def)
qed

subsection \<open>Successful runs on the in-memory store\<close>

lemma lookup_append:
  "lookup k (rs @ [r]) = (case lookup k rs of Some x \<Rightarrow> Some x
                           | None \<Rightarrow> if objectKey r = k then Some r else None)"
  by (induction rs) (auto simp: lookup_def)

text \<open>
  A successful \<^verbatim>\<open>Present\<close> either found nothing and created the body, or found a
  resource with a presence token and updated it.
\<close>

lemma Present_mem_success:
  assumes cfg: "loadConfig U (Config ch) = (cfg, None)"
    and ok: "Present U memSolver ch w = (None, w1)"
  shows "(lookup (derivedIdentity U ch) (objects (store w)) = None
          \<and> objects (store w1) = objects (store w) @
              [(desiredBody cfg ch (zeroRecord\<lparr>Name := getRecordName U (ResolvedFQDN ch)\<rparr>))
                 \<lparr>UID := freshUID (nextUID (store w))\<rparr>]
          \<and> nextUID (store w1) = Suc (nextUID (store w))
          \<and> calls w1 = calls w @ [GetCall (derivedIdentity U ch),
               CreateCall (desiredBody cfg ch (zeroRecord\<lparr>Name := getRecordName U (ResolvedFQDN ch)\<rparr>))])
       \<or> (\<exists>r. lookup (derivedIdentity U ch) (objects (store w)) = Some r \<and> UID r \<noteq> []
          \<and> objects (store w1)
              = map (\<lambda>x. if objectKey x = derivedIdentity U ch then desiredBody cfg ch r else x)
                  (objects (store w))
          \<and> nextUID (store w1) = nextUID (store w)
          \<and> calls w1 = calls w @ [GetCall (derivedIdentity U ch), UpdateCall (desiredBody cfg ch r)])"
proof -
  let ?key = "derivedIdentity U ch"
  let ?zero = "zeroRecord\<lparr>Name := getRecordName U (ResolvedFQDN ch)\<rparr>"
  obtain err fetched wg where get: "client_Get (client memSolver) ?key ?zero w = ((err, fetched), wg)"
    by (cases "client_Get (client memSolver) ?key ?zero w") auto
  note p = Present_fetched [OF cfg get]
  note g = memGet_cases [OF get]
  have wg: "calls wg = calls w @ [GetCall ?key]" "store wg = begun (store w)"
    using g by simp_all
  have ign: "IgnoreNotFound err = None"
    using p ok by (auto simp: IgnoreNotFound_def split: if_splits)
  have bkey: "objectKey fetched = ?key \<or> fetched = ?zero \<Longrightarrow>
      objectKey (desiredBody cfg ch fetched) = ?key"
    by (auto simp: objectKey_def derivedIdentity_def)
  from g consider
      (fault) msg where "err = Some (StoreFailure msg)"
    | (absent) "lookup ?key (objects (store w)) = None" "err = Some NotFound" "fetched = ?zero"
    | (found) "lookup ?key (objects (store w)) = Some fetched" "err = None"
    by auto
  then show ?thesis
  proof cases
    case fault
    then show ?thesis using ign by (simp add: IgnoreNotFound_def)
  next
    case absent
    have "UID fetched = []" using absent(3) by (simp add: zeroRecord_def)
    then have "client_Create (client memSolver) (desiredBody cfg ch ?zero) wg = (None, w1)"
      using p ok ign absent(3) by simp
    from memCreate_ok [OF this] absent(1) wg
    show ?thesis by simp
  next
    case found
    have fkey: "objectKey fetched = ?key"
      using lookup_Some_key [OF found(1)] by simp
    show ?thesis
    proof (cases "UID fetched = []")
      case True
      then have "client_Create (client memSolver) (desiredBody cfg ch fetched) wg = (None, w1)"
        using p ok ign by simp
      from memCreate_ok [OF this] have "lookup ?key (objects (store w)) = None"
        using bkey fkey wg by simp
      then show ?thesis using found(1) by simp
    next
      case False
      then have "client_Update (client memSolver) (desiredBody cfg ch fetched) wg = (None, w1)"
        using p ok ign by simp
      from memUpdate_ok [OF this] found(1) False wg bkey fkey
      show ?thesis by simp
    qed
  qed
qed

text \<open>After a successful \<^verbatim>\<open>Present\<close> the store holds the desired body at the identity.\<close>

lemma Present_mem_stored:
  assumes cfg: "loadConfig U (Config ch) = (cfg, None)"
    and ok: "Present U memSolver ch w = (None, w1)"
  shows "\<exists>r. lookup (derivedIdentity U ch) (objects (store w1)) = Some r
           \<and> desiredBody cfg ch r = r \<and> UID r \<noteq> []
           \<and> Name r = getRecordName U (ResolvedFQDN ch)"
proof -
  let ?key = "derivedIdentity U ch"
  let ?zero = "zeroRecord\<lparr>Name := getRecordName U (ResolvedFQDN ch)\<rparr>"
  from Present_mem_success [OF cfg ok] show ?thesis
  proof (elim disjE conjE exE)
    assume none: "lookup ?key (objects (store w)) = None"
      and objs: "objects (store w1) = objects (store w) @
              [(desiredBody cfg ch ?zero)\<lparr>UID := freshUID (nextUID (store w))\<rparr>]"
    let ?r = "(desiredBody cfg ch ?zero)\<lparr>UID := freshUID (nextUID (store w))\<rparr>"
    have "objectKey ?r = ?key"
      by (simp add: objectKey_def derivedIdentity_def)
    then have "lookup ?key (objects (store w1)) = Some ?r"
      using none objs by (simp add: lookup_append)
    moreover have "desiredBody cfg ch ?r = ?r"
      by (simp add: desiredBody_def)
    ultimately show ?thesis by (intro exI [of _ ?r]) simp
  next
    fix r
    assume some: "lookup ?key (objects (store w)) = Some r" and uid: "UID r \<noteq> []"
      and objs: "objects (store w1)
              = map (\<lambda>x. if objectKey x = ?key then desiredBody cfg ch r else x) (objects (store w))"
    have rkey: "objectKey r = ?key" using lookup_Some_key [OF some] by simp
    then have bkey: "objectKey (desiredBody cfg ch r) = ?key"
      by (auto simp: objectKey_def derivedIdentity_def)
    have "lookup ?key (objects (store w1)) = Some (desiredBody cfg ch r)"
      using lookup_replace [OF bkey some] objs by simp
    moreover have "Name r = getRecordName U (ResolvedFQDN ch)"
      using rkey by (simp add: objectKey_def derivedIdentity_def)
    ultimately show ?thesis using uid by (intro exI [of _ "desiredBody cfg ch r"]) simp
  qed
qed

text \<open>A successful \<^verbatim>\<open>CleanUp\<close> either found nothing, or found a resource and deleted it.\<close>

lemma CleanUp_mem_success:
  assumes ok: "CleanUp U memSolver ch w = (None, w2)"
  shows "(lookup (derivedIdentity U ch) (objects (store w)) = None
          \<and> objects (store w2) = objects (store w)
          \<and> calls w2 = calls w @ [GetCall (derivedIdentity U ch)])
       \<or> (\<exists>r. lookup (derivedIdentity U ch) (objects (store w)) = Some r
          \<and> objects (store w2)
              = filter (\<lambda>x. objectKey x \<noteq> derivedIdentity U ch) (objects (store w))
          \<and> calls w2 = calls w @ [GetCall (derivedIdentity U ch), DeleteCall r])"
proof -
  let ?key = "derivedIdentity U ch"
  let ?zero = "zeroRecord\<lparr>Name := getRecordName U (ResolvedFQDN ch)\<rparr>"
  obtain err fetched wg where get: "client_Get (client memSolver) ?key ?zero w = ((err, fetched), wg)"
    by (cases "client_Get (client memSolver) ?key ?zero w") auto
  note p = CleanUp_fetched [OF get]
  note g = memGet_cases [OF get]
  have wg: "calls wg = calls w @ [GetCall ?key]" "store wg = begun (store w)"
    using g by simp_all
  from g consider
      (fault) msg where "err = Some (StoreFailure msg)"
    | (absent) "lookup ?key (objects (store w)) = None" "err = Some NotFound"
    | (found) "lookup ?key (objects (store w)) = Some fetched" "err = None"
    by auto
  then show ?thesis
  proof cases
    case fault
    then show ?thesis using p ok by (simp add: IgnoreNotFound_def)
  next
    case absent
    then have "w2 = wg" using p ok by simp
    then show ?thesis using absent(1) wg by simp
  next
    case found
    have fkey: "objectKey fetched = ?key"
      using lookup_Some_key [OF found(1)] by simp
    have "client_Delete (client memSolver) fetched wg = (None, w2)"
      using p ok found(2) by simp
    from memDelete_ok [OF this] found(1) wg fkey
    show ?thesis by simp
  qed
qed

text \<open>With no failure from the environment both operations succeed.\<close>

lemma Present_mem_quiet:
  assumes wf: "wellFormed (store w)"
    and cfg: "loadConfig U (Config ch) = (cfg, None)"
    and q: "quiet 2 (store w)"
  shows "fst (Present U memSolver ch w) = None"
proof -
  let ?key = "derivedIdentity U ch"
  let ?zero = "zeroRecord\<lparr>Name := getRecordName U (ResolvedFQDN ch)\<rparr>"
  have q2: "nextFault (store w) = None" "nextFault (begun (store w)) = None"
    using q by (simp_all add: numeral_2_eq_2 quiet_Suc)
  show ?thesis
  proof (cases "lookup ?key (objects (store w))")
    case None
    have get: "client_Get (client memSolver) ?key ?zero w
        = ((Some NotFound, ?zero), \<lparr>calls = calls w @ [GetCall ?key], store = begun (store w)\<rparr>)"
      using None q2(1) by (simp add: client_Get_def memGet_def)
    have "objectKey (desiredBody cfg ch ?zero) = ?key"
      by (simp add: objectKey_def derivedIdentity_def)
    then show ?thesis
      using None q2(2)
      by (simp add: Present_fetched [OF cfg get] IgnoreNotFound_def zeroRecord_def
          client_Create_def memCreate_def)
  next
    case (Some r)
    have get: "client_Get (client memSolver) ?key ?zero w
        = ((None, r), \<lparr>calls = calls w @ [GetCall ?key], store = begun (store w)\<rparr>)"
      using Some q2(1) by (simp add: client_Get_def memGet_def)
    have rkey: "objectKey r = ?key" and "r \<in> set (objects (store w))"
      using lookup_Some_key [OF Some] by simp_all
    then have uid: "UID r \<noteq> []"
      using wf by (auto simp: wellFormed_def list_all_iff)
    have "objectKey (desiredBody cfg ch r) = ?key"
      using rkey by (auto simp: objectKey_def derivedIdentity_def)
    then show ?thesis
      using Some q2(2) uid
      by (simp add: Present_fetched [OF cfg get] IgnoreNotFound_def
          client_Update_def memUpdate_def)
  qed
qed

subsection \<open>The invariant of the in-memory store\<close>

text \<open>
  Well-formedness is the invariant of the representation: the empty store has it and
  every call of the client keeps it, whether the call succeeds or not. So it holds
  in every store the solver can meet.
\<close>

lemma memGet_wellFormed:
  "wellFormed s \<Longrightarrow> wellFormed (snd (memGet key obj s))"
  by (simp add: memGet_def split: option.splits)

lemma memCreate_wellFormed:
  "wellFormed s \<Longrightarrow> wellFormed (snd (memCreate obj s))"
  by (auto simp: memCreate_def wellFormed_def lookup_None objectKey_def split: option.splits)

lemma memUpdate_wellFormed:
  assumes "wellFormed s"
  shows "wellFormed (snd (memUpdate obj s))"
proof (cases "nextFault s")
  case (Some msg)
  then show ?thesis using assms by (simp add: memUpdate_def)
next
  case None
  show ?thesis
  proof (cases "lookup (objectKey obj) (objects s)")
    case nf: None
    then show ?thesis using assms None by (simp add: memUpdate_def)
  next
    case (Some r)
    show ?thesis
    proof (cases "UID obj = UID r")
      case False
      then show ?thesis using assms None Some by (simp add: memUpdate_def)
    next
      case True
      have "r \<in> set (objects s)" using lookup_Some_key [OF Some] by simp
      then have uid: "UID obj \<noteq> []"
        using assms True by (auto simp: wellFormed_def list_all_iff)
      let ?rs = "map (\<lambda>x. if objectKey x = objectKey obj then obj else x) (objects s)"
      have keys: "map objectKey ?rs = map objectKey (objects s)"
        by (rule replace_keys) simp
      have "distinct (map objectKey ?rs)"
        using assms by (simp only: keys wellFormed_def)
      moreover have "list_all (\<lambda>r. UID r \<noteq> []) ?rs"
        using assms uid by (auto simp: wellFormed_def list_all_iff)
      ultimately show ?thesis
        using None Some True by (simp add: memUpdate_def wellFormed_def)
    qed
  qed
qed

lemma memDelete_wellFormed:
  "wellFormed s \<Longrightarrow> wellFormed (snd (memDelete obj s))"
  by (auto simp: memDelete_def wellFormed_def distinct_map_filter list_all_iff
      split: option.splits)

lemma client_store:
  "store (snd (client_Get cl key obj w)) = snd (Get cl key obj (store w))"
  "store (snd (client_Create cl obj w)) = snd (Create cl obj (store w))"
  "store (snd (client_Update cl obj w)) = snd (Update cl obj (store w))"
  "store (snd (client_Delete cl obj w)) = snd (Delete cl obj (store w))"
  by (simp_all add: client_Get_def client_Create_def client_Update_def client_Delete_def
      split: prod.splits)

lemma Present_wellFormed:
  assumes "wellFormed (store w)"
  shows "wellFormed (store (snd (Present U memSolver ch w)))"
proof (cases "loadConfig U (Config ch)")
  case (Pair cfg e)
  show ?thesis
  proof (cases e)
    case (Some err)
    then show ?thesis using Pair assms by (simp add: Present_config_error)
  next
    case None
    let ?key = "derivedIdentity U ch"
    let ?zero = "zeroRecord\<lparr>Name := getRecordName U (ResolvedFQDN ch)\<rparr>"
    obtain err fetched wg where get: "client_Get (client memSolver) ?key ?zero w = ((err, fetched), wg)"
      by (cases "client_Get (client memSolver) ?key ?zero w") auto
    have "store wg = snd (memGet ?key ?zero (store w))"
      using arg_cong [OF get, of "\<lambda>x. store (snd x)"] by (simp add: client_store)
    then have wg: "wellFormed (store wg)"
      using memGet_wellFormed [OF assms] by simp
    show ?thesis
      using Pair None wg
      by (simp add: Present_fetched [OF _ get] client_store memCreate_wellFormed
          memUpdate_wellFormed)
  qed
qed

lemma CleanUp_wellFormed:
  assumes "wellFormed (store w)"
  shows "wellFormed (store (snd (CleanUp U memSolver ch w)))"
proof -
  let ?key = "derivedIdentity U ch"
  let ?zero = "zeroRecord\<lparr>Name := getRecordName U (ResolvedFQDN ch)\<rparr>"
  obtain err fetched wg where get: "client_Get (client memSolver) ?key ?zero w = ((err, fetched), wg)"
    by (cases "client_Get (client memSolver) ?key ?zero w") auto
  have "store wg = snd (memGet ?key ?zero (store w))"
    using arg_cong [OF get, of "\<lambda>x. store (snd x)"] by (simp add: client_store)
  then have wg: "wellFormed (store wg)"
    using memGet_wellFormed [OF assms] by simp
  show ?thesis
    using wg by (simp add: CleanUp_fetched [OF get] client_store memDelete_wellFormed)
qed

subsection \<open>The sample challenge on the in-memory store\<close>

lemma loadConfig_sample:
  "loadConfig U (Config sampleChallenge) = (\<lparr>Labels = Map.empty, Extra = Map.empty\<rparr>, None)"
  by (simp add: sampleChallenge_def loadConfig_def)

lemma desiredBody_sample:
  "desiredBody \<lparr>Labels = Map.empty, Extra = Map.empty\<rparr> sampleChallenge
     (zeroRecord\<lparr>Name := getRecordName U (ResolvedFQDN sampleChallenge)\<rparr>)
   = presentedRecord\<lparr>UID := []\<rparr>"
  "desiredBody \<lparr>Labels = Map.empty, Extra = Map.empty\<rparr> sampleChallenge presentedRecord
   = presentedRecord"
  by (simp_all add: desiredBody_def sampleChallenge_def zeroRecord_def staleRecord_def
      presentedRecord_def stripTrailingDot_def getRecordName_sample)

lemma presentedRecord_key:
  "objectKey presentedRecord = (''default'', ''acme--acme-challenge-foo-example-com'')"
  "objectKey (presentedRecord\<lparr>UID := u\<rparr>) = (''default'', ''acme--acme-challenge-foo-example-com'')"
  by (simp_all add: objectKey_def presentedRecord_def staleRecord_def)

lemma Present_sample_empty:
  "Present U memSolver sampleChallenge emptyWorld = (None, presentedWorld)"
proof -
  let ?zero = "zeroRecord\<lparr>Name := getRecordName U (ResolvedFQDN sampleChallenge)\<rparr>"
  let ?wg = "\<lparr>calls = [GetCall (''default'', ''acme--acme-challenge-foo-example-com'')],
              store = emptyStore\<rparr>"
  have get: "client_Get (client memSolver) (derivedIdentity U sampleChallenge) ?zero emptyWorld
      = ((Some NotFound, ?zero), ?wg)"
    by (simp add: client_Get_def memGet_def emptyWorld_def emptyStore_def nextFault_def lookup_def
        begun_def)
  have create: "client_Create (client memSolver) (presentedRecord\<lparr>UID := []\<rparr>) ?wg
      = (None, presentedWorld)"
    by (simp add: client_Create_def memCreate_def emptyStore_def nextFault_def lookup_def
        begun_def presentedWorld_def freshUID_def presentedRecord_def staleRecord_def)
  have uid: "UID ?zero = []"
    by (simp add: zeroRecord_def)
  show ?thesis
    using uid
    by (simp add: Present_fetched [OF loadConfig_sample get] IgnoreNotFound_def
        desiredBody_sample create)
qed

lemma Present_sample_again:
  "Present U memSolver sampleChallenge presentedWorld
     = (None, presentedWorld
          \<lparr>calls := calls presentedWorld @
             [GetCall (''default'', ''acme--acme-challenge-foo-example-com''),
              UpdateCall presentedRecord]\<rparr>)"
proof -
  let ?zero = "zeroRecord\<lparr>Name := getRecordName U (ResolvedFQDN sampleChallenge)\<rparr>"
  let ?wg = "presentedWorld\<lparr>calls := calls presentedWorld @
             [GetCall (''default'', ''acme--acme-challenge-foo-example-com'')]\<rparr>"
  have get: "client_Get (client memSolver) (derivedIdentity U sampleChallenge) ?zero presentedWorld
      = ((None, presentedRecord), ?wg)"
    by (simp add: client_Get_def memGet_def presentedWorld_def nextFault_def lookup_def
        begun_def presentedRecord_key)
  have update: "client_Update (client memSolver) presentedRecord ?wg
      = (None, presentedWorld
          \<lparr>calls := calls presentedWorld @
             [GetCall (''default'', ''acme--acme-challenge-foo-example-com''),
              UpdateCall presentedRecord]\<rparr>)"
    by (simp add: client_Update_def memUpdate_def presentedWorld_def nextFault_def lookup_def
        begun_def presentedRecord_key)
  have uid: "UID presentedRecord \<noteq> []"
    by (simp add: presentedRecord_def staleRecord_def)
  show ?thesis
    using uid
    by (simp add: Present_fetched [OF loadConfig_sample get] IgnoreNotFound_def
        desiredBody_sample update)
qed

lemma CleanUp_sample_presented:
  "CleanUp U memSolver sampleChallenge presentedWorld
     = (None, \<lparr>calls = calls presentedWorld @
                  [GetCall (''default'', ''acme--acme-challenge-foo-example-com''),
                   DeleteCall presentedRecord],
               store = emptyStore\<lparr>nextUID := 1\<rparr>\<rparr>)"
proof -
  let ?zero = "zeroRecord\<lparr>Name := getRecordName U (ResolvedFQDN sampleChallenge)\<rparr>"
  let ?wg = "presentedWorld\<lparr>calls := calls presentedWorld @
             [GetCall (''default'', ''acme--acme-challenge-foo-example-com'')]\<rparr>"
  have get: "client_Get (client memSolver) (derivedIdentity U sampleChallenge) ?zero presentedWorld
      = ((None, presentedRecord), ?wg)"
    by (simp add: client_Get_def memGet_def presentedWorld_def nextFault_def lookup_def
        begun_def presentedRecord_key)
  have del: "client_Delete (client memSolver) presentedRecord ?wg
      = (None, \<lparr>calls = calls presentedWorld @
                  [GetCall (''default'', ''acme--acme-challenge-foo-example-com''),
                   DeleteCall presentedRecord],
               store = emptyStore\<lparr>nextUID := 1\<rparr>\<rparr>)"
    by (simp add: client_Delete_def memDelete_def presentedWorld_def nextFault_def lookup_def
        begun_def presentedRecord_key emptyStore_def)
  show ?thesis
    by (simp add: CleanUp_fetched [OF get] del)
qed

lemma wellFormed_empty: "wellFormed (store emptyWorld)"
  by (simp add: wellFormed_def emptyWorld_def emptyStore_def)

subsection \<open>Presenting twice\<close>

text \<open>
  Claim C1. For every well-formed store and every challenge whose configuration
  decodes, when \<^verbatim>\<open>Present\<close> is called twice in succession with the same challenge
  and both calls succeed, the store then holds exactly one resource at the derived
  identity; the second call is a get and an update (no create, no duplicate); the
  resource's fields are the desired body the second call wrote; and the resources
  of the store after the second call are those after the first.
\<close>

theorem Present_twice_idempotent:
  assumes "wellFormed (store w)"
    and "loadConfig U (Config ch) = (cfg, None)"
    and "Present U memSolver ch w = (None, w1)"
    and "Present U memSolver ch w1 = (None, w2)"
  shows "\<exists>r. resourcesAt (derivedIdentity U ch) (objects (store w2)) = [r]
           \<and> calls w2 = calls w1 @ [GetCall (derivedIdentity U ch), UpdateCall r]
           \<and> Name r = getRecordName U (ResolvedFQDN ch)
           \<and> Namespace r = ResourceNamespace ch
           \<and> ObjectMeta_Labels r = Labels cfg
           \<and> Spec_Name r = stripTrailingDot (ResolvedFQDN ch)
           \<and> Spec_Type r = ''TXT''
           \<and> Spec_Value r = Key ch
           \<and> Spec_Extra r = Extra cfg
           \<and> UID r \<noteq> []
           \<and> objects (store w2) = objects (store w1)
           \<and> nextUID (store w2) = nextUID (store w1)"
proof -
  let ?key = "derivedIdentity U ch"
  have wf1: "wellFormed (store w1)"
    using Present_wellFormed [OF assms(1), of U ch] assms(3) by simp
  then have d1: "distinct (map objectKey (objects (store w1)))"
    by (simp add: wellFormed_def)
  from Present_mem_stored [OF assms(2,3)]
  obtain r1 where r1: "lookup ?key (objects (store w1)) = Some r1"
    and body: "desiredBody cfg ch r1 = r1" and uid: "UID r1 \<noteq> []"
    and name: "Name r1 = getRecordName U (ResolvedFQDN ch)"
    by blast
  from Present_mem_success [OF assms(2,4)] r1
  have upd: "objects (store w2)
        = map (\<lambda>x. if objectKey x = ?key then r1 else x) (objects (store w1))"
    and uidc: "nextUID (store w2) = nextUID (store w1)"
    and calls2: "calls w2 = calls w1 @ [GetCall ?key, UpdateCall r1]"
    by (auto simp: body)
  have same: "objects (store w2) = objects (store w1)"
    using upd replace_same [OF d1 r1] by simp
  have one: "resourcesAt ?key (objects (store w2)) = [r1]"
    using resourcesAt_distinct [OF d1 r1] same by simp
  have fields: "Namespace r1 = ResourceNamespace ch \<and> ObjectMeta_Labels r1 = Labels cfg
      \<and> Spec_Name r1 = stripTrailingDot (ResolvedFQDN ch) \<and> Spec_Type r1 = ''TXT''
      \<and> Spec_Value r1 = Key ch \<and> Spec_Extra r1 = Extra cfg"
    using arg_cong [OF body, of Namespace] arg_cong [OF body, of ObjectMeta_Labels]
      arg_cong [OF body, of Spec_Name] arg_cong [OF body, of Spec_Type]
      arg_cong [OF body, of Spec_Value] arg_cong [OF body, of Spec_Extra]
    by (simp add: desiredBody_def)
  show ?thesis
    using one calls2 name fields uid same uidc by (intro exI [of _ r1]) simp
qed

theorem Present_twice_idempotent_witness:
  "Present ascii_tables memSolver sampleChallenge emptyWorld = (None, presentedWorld)
   \<and> fst (Present ascii_tables memSolver sampleChallenge presentedWorld) = None
   \<and> objects (store (snd (Present ascii_tables memSolver sampleChallenge presentedWorld)))
       = [presentedRecord]
   \<and> Spec_Value presentedRecord = ''abc123''
   \<and> (\<exists>r. resourcesAt (''default'', ''acme--acme-challenge-foo-example-com'')
             (objects (store (snd (Present ascii_tables memSolver sampleChallenge presentedWorld))))
           = [r])"
proof -
  note p1 = Present_sample_empty [of ascii_tables]
  note p2 = Present_sample_again [of ascii_tables]
  from Present_twice_idempotent [OF wellFormed_empty loadConfig_sample p1 p2]
  have "\<exists>r. resourcesAt (''default'', ''acme--acme-challenge-foo-example-com'')
             (objects (store (snd (Present ascii_tables memSolver sampleChallenge presentedWorld))))
           = [r]"
    unfolding p2 by auto
  moreover have "Spec_Value presentedRecord = ''abc123''"
    by (simp add: presentedRecord_def)
  moreover have "objects (store (snd (Present ascii_tables memSolver sampleChallenge presentedWorld)))
       = [presentedRecord]"
    unfolding p2 by (simp add: presentedWorld_def)
  ultimately show ?thesis using p1 p2 by simp
qed

subsection \<open>Present, then CleanUp\<close>

text \<open>
  Claim C5. For every starting store and every challenge whose configuration
  decodes, a successful \<^verbatim>\<open>Present\<close> followed by a successful \<^verbatim>\<open>CleanUp\<close> of the same
  challenge leaves no resource at the derived identity.
\<close>

theorem Present_then_CleanUp:
  assumes "loadConfig U (Config ch) = (cfg, None)"
    and "Present U memSolver ch w = (None, w1)"
    and "CleanUp U memSolver ch w1 = (None, w2)"
  shows "resourcesAt (derivedIdentity U ch) (objects (store w2)) = []"
proof -
  from Present_mem_stored [OF assms(1,2)]
  obtain r where "lookup (derivedIdentity U ch) (objects (store w1)) = Some r"
    by blast
  with CleanUp_mem_success [OF assms(3)]
  have "objects (store w2)
      = filter (\<lambda>x. objectKey x \<noteq> derivedIdentity U ch) (objects (store w1))"
    by auto
  then show ?thesis by (simp add: resourcesAt_removed)
qed

theorem Present_then_CleanUp_witness:
  "resourcesAt (''default'', ''acme--acme-challenge-foo-example-com'') (objects (store presentedWorld))
     = [presentedRecord]
   \<and> resourcesAt (''default'', ''acme--acme-challenge-foo-example-com'')
       (objects (store (snd (CleanUp ascii_tables memSolver sampleChallenge
          (snd (Present ascii_tables memSolver sampleChallenge emptyWorld)))))) = []"
proof -
  note p = Present_sample_empty [of ascii_tables]
  note c = CleanUp_sample_presented [of ascii_tables]
  from Present_then_CleanUp [OF loadConfig_sample p c]
  have "resourcesAt (''default'', ''acme--acme-challenge-foo-example-com'')
       (objects (store (snd (CleanUp ascii_tables memSolver sampleChallenge
          (snd (Present ascii_tables memSolver sampleChallenge emptyWorld)))))) = []"
    by (simp add: p c)
  moreover have "resourcesAt (''default'', ''acme--acme-challenge-foo-example-com'')
      (objects (store presentedWorld)) = [presentedRecord]"
    by (simp add: resourcesAt_def presentedWorld_def presentedRecord_key)
  ultimately show ?thesis by simp
qed

subsection \<open>The scenario of the specification\<close>

text \<open>
  Claim C3, as amended. For the challenge with domain
  \<^verbatim>\<open>_acme-challenge.foo.example.com.\<close>, token \<^verbatim>\<open>abc123\<close>, owner \<^verbatim>\<open>default\<close> and no
  configuration, on a store with no resource at the derived identity (the two calls
  not being made to fail by the environment), \<^verbatim>\<open>Present\<close> succeeds and creates
  exactly one resource, named \<^verbatim>\<open>acme--acme-challenge-foo-example-com\<close> (the underscore
  is replaced by a hyphen, not removed), with namespace \<^verbatim>\<open>default\<close>, record type
  \<^verbatim>\<open>TXT\<close>, record value \<^verbatim>\<open>abc123\<close> and record name
  \<^verbatim>\<open>_acme-challenge.foo.example.com\<close> (trailing dot removed).
\<close>

theorem Present_scenario:
  assumes "resourcesAt (derivedIdentity U sampleChallenge) (objects (store w)) = []"
    and "quiet 2 (store w)"
  shows "derivedIdentity U sampleChallenge = (''default'', ''acme--acme-challenge-foo-example-com'')
       \<and> fst (Present U memSolver sampleChallenge w) = None
       \<and> objects (store (snd (Present U memSolver sampleChallenge w)))
           = objects (store w) @
             [\<lparr>Name = ''acme--acme-challenge-foo-example-com'', Namespace = ''default'',
               UID = freshUID (nextUID (store w)), ObjectMeta_Labels = Map.empty,
               Spec_Name = ''_acme-challenge.foo.example.com'', Spec_Type = ''TXT'',
               Spec_Value = ''abc123'', Spec_Extra = Map.empty, Other = Map.empty\<rparr>]
       \<and> length (resourcesAt (derivedIdentity U sampleChallenge)
                   (objects (store (snd (Present U memSolver sampleChallenge w))))) = 1
       \<and> calls (snd (Present U memSolver sampleChallenge w))
           = calls w @ [GetCall (derivedIdentity U sampleChallenge),
                        CreateCall (presentedRecord\<lparr>UID := []\<rparr>)]"
proof -
  let ?key = "derivedIdentity U sampleChallenge"
  let ?zero = "zeroRecord\<lparr>Name := getRecordName U (ResolvedFQDN sampleChallenge)\<rparr>"
  let ?wg = "\<lparr>calls = calls w @ [GetCall ?key], store = begun (store w)\<rparr>"
  let ?new = "(presentedRecord\<lparr>UID := []\<rparr>)\<lparr>UID := freshUID (nextUID (store w))\<rparr>"
  have q: "nextFault (store w) = None" "nextFault (begun (store w)) = None"
    using assms(2) by (simp_all add: numeral_2_eq_2 quiet_Suc)
  have none: "lookup ?key (objects (store w)) = None"
    using assms(1) by (simp add: resourcesAt_None)
  have get: "client_Get (client memSolver) ?key ?zero w = ((Some NotFound, ?zero), ?wg)"
    using none q(1) by (simp add: client_Get_def memGet_def)
  have create: "client_Create (client memSolver) (presentedRecord\<lparr>UID := []\<rparr>) ?wg
      = (None, \<lparr>calls = calls w @ [GetCall ?key, CreateCall (presentedRecord\<lparr>UID := []\<rparr>)],
                store = (begun (begun (store w)))
                  \<lparr>objects := objects (store w) @ [?new], nextUID := Suc (nextUID (store w))\<rparr>\<rparr>)"
    using none q(2) by (simp add: client_Create_def memCreate_def presentedRecord_key)
  have p: "Present U memSolver sampleChallenge w
      = (None, \<lparr>calls = calls w @ [GetCall ?key, CreateCall (presentedRecord\<lparr>UID := []\<rparr>)],
                store = (begun (begun (store w)))
                  \<lparr>objects := objects (store w) @ [?new], nextUID := Suc (nextUID (store w))\<rparr>\<rparr>)"
    by (simp only: Present_fetched [OF loadConfig_sample get] desiredBody_sample create)
       (simp add: IgnoreNotFound_def zeroRecord_def)
  have new: "?new = \<lparr>Name = ''acme--acme-challenge-foo-example-com'', Namespace = ''default'',
               UID = freshUID (nextUID (store w)), ObjectMeta_Labels = Map.empty,
               Spec_Name = ''_acme-challenge.foo.example.com'', Spec_Type = ''TXT'',
               Spec_Value = ''abc123'', Spec_Extra = Map.empty, Other = Map.empty\<rparr>"
    by (simp add: presentedRecord_def staleRecord_def)
  have one: "resourcesAt ?key (objects (store w) @ [?new]) = [?new]"
    using assms(1) by (simp add: resourcesAt_def presentedRecord_key)
  show ?thesis
    unfolding p using new one by simp
qed

theorem Present_scenario_witness:
  "fst (Present ascii_tables memSolver sampleChallenge emptyWorld) = None
   \<and> objects (store (snd (Present ascii_tables memSolver sampleChallenge emptyWorld)))
       = [\<lparr>Name = ''acme--acme-challenge-foo-example-com'', Namespace = ''default'',
           UID = ''uid-'', ObjectMeta_Labels = Map.empty,
           Spec_Name = ''_acme-challenge.foo.example.com'', Spec_Type = ''TXT'',
           Spec_Value = ''abc123'', Spec_Extra = Map.empty, Other = Map.empty\<rparr>]"
proof -
  have a: "resourcesAt (derivedIdentity ascii_tables sampleChallenge) (objects (store emptyWorld)) = []"
    by (simp add: resourcesAt_def emptyWorld_def emptyStore_def)
  have b: "quiet 2 (store emptyWorld)"
    by (simp add: quiet_def emptyWorld_def emptyStore_def)
  from Present_scenario [OF a b]
  show ?thesis by (simp add: emptyWorld_def emptyStore_def freshUID_def)
qed

text \<open>
  Claim C3 as the specification states it fails: on the empty store \<^verbatim>\<open>Present\<close>
  creates no resource named \<^verbatim>\<open>acme-acme-challenge-foo-example-com\<close>; the resource it
  creates has the name with two hyphens.
\<close>

theorem Present_scenario_counterexample:
  "resourcesAt (''default'', ''acme-acme-challenge-foo-example-com'')
     (objects (store (snd (Present ascii_tables memSolver sampleChallenge emptyWorld)))) = []
   \<and> map Name (objects (store (snd (Present ascii_tables memSolver sampleChallenge emptyWorld))))
       = [''acme--acme-challenge-foo-example-com'']"
  by (simp add: Present_sample_empty presentedWorld_def resourcesAt_def presentedRecord_def
      staleRecord_def objectKey_def)

end
